theory Spec2Isabelle
  imports Complex_Main
begin

section \<open>Vectors\<close>

text \<open>
  The simulation core of the cloth simulator (\<^verbatim>\<open>src/src/ClothSystem.cpp\<close>,
  \<^verbatim>\<open>src/include/ClothSystem.h\<close>) is embedded function by function.

  \<^verbatim>\<open>float\<close> is modelled by \<^typ>\<open>real\<close>: rounding, infinities and NaN are not
  modelled, so a quotient by zero (which the C++ code turns into NaN or infinity) has
  HOL's value; such inputs (a grid dimension of 1, the zero vector handed to
  \<^verbatim>\<open>glm::normalize\<close>) are kept out of the statements that would depend on them.
  \<^verbatim>\<open>int\<close> is modelled by \<^typ>\<open>int\<close> without overflow (the grids the claims speak about
  are far below \<open>2^31\<close> cells).

  \<^verbatim>\<open>glm::vec3\<close> with the operators the code uses.
\<close>

datatype vec3 = Vec3 (vx: real) (vy: real) (vz: real)

definition vzero :: vec3 where
  "vzero = Vec3 0 0 0"

definition vadd :: "vec3 \<Rightarrow> vec3 \<Rightarrow> vec3" where
  "vadd a b = Vec3 (vx a + vx b) (vy a + vy b) (vz a + vz b)"

definition vsub :: "vec3 \<Rightarrow> vec3 \<Rightarrow> vec3" where
  "vsub a b = Vec3 (vx a - vx b) (vy a - vy b) (vz a - vz b)"

definition vscale :: "vec3 \<Rightarrow> real \<Rightarrow> vec3" where
  "vscale a k = Vec3 (vx a * k) (vy a * k) (vz a * k)"

definition vdivs :: "vec3 \<Rightarrow> real \<Rightarrow> vec3" where
  "vdivs a k = Vec3 (vx a / k) (vy a / k) (vz a / k)"

definition dot :: "vec3 \<Rightarrow> vec3 \<Rightarrow> real" where
  "dot a b = vx a * vx b + vy a * vy b + vz a * vz b"

definition cross :: "vec3 \<Rightarrow> vec3 \<Rightarrow> vec3" where
  "cross a b = Vec3 (vy a * vz b - vy b * vz a) (vz a * vx b - vz b * vx a) (vx a * vy b - vx b * vy a)"

definition vlength :: "vec3 \<Rightarrow> real" where
  "vlength a = sqrt (dot a a)"

definition normalize :: "vec3 \<Rightarrow> vec3" where
  "normalize a = vscale a (1 / sqrt (dot a a))"

section \<open>Data model\<close>

record Particle =
  position :: vec3
  oldPosition :: vec3
  velocity :: vec3
  force :: vec3
  mass :: real
  pinned :: bool
  active :: bool

text \<open>
  \<^verbatim>\<open>Particle::Particle(pos)\<close> with the default member initialisers
  of the header.
\<close>

definition Particle_ctor :: "vec3 \<Rightarrow> Particle" where
  "Particle_ctor pos =
     \<lparr>position = pos, oldPosition = pos, velocity = vzero, force = vzero,
      mass = 1, pinned = False, active = True\<rparr>"

datatype SpringType = STRUCTURAL | SHEAR | BEND

text \<open>
  The fields \<^verbatim>\<open>type\<close> and \<^verbatim>\<open>active\<close> of
  \<^verbatim>\<open>Spring\<close> are \<open>stype\<close> and \<open>sactive\<close>
  here.
\<close>

record Spring =
  particle1 :: int
  particle2 :: int
  restLength :: real
  stiffness :: real
  stype :: SpringType
  sactive :: bool

definition Spring_ctor :: "int \<Rightarrow> int \<Rightarrow> real \<Rightarrow> real \<Rightarrow> SpringType \<Rightarrow> Spring" where
  "Spring_ctor p1 p2 len k t =
     \<lparr>particle1 = p1, particle2 = p2, restLength = len, stiffness = k, stype = t, sactive = True\<rparr>"

record CollisionSphere =
  center :: vec3
  radius :: real

datatype SimulationMode = TEAR | COLLISION | FLAG

text \<open>
  The function-local statics: \<^verbatim>\<open>startPos\<close>, \<^verbatim>\<open>angle\<close>, \<^verbatim>\<open>goingForward\<close> of
  \<^verbatim>\<open>updateObjectMovement\<close> (\<open>startPos = None\<close> until the declaration is first reached),
  and the random generator of \<^verbatim>\<open>applyWindForce\<close>: the sequence \<open>turbulence\<close> of the values
  that \<^verbatim>\<open>turbulence(gen)\<close> will return and the number \<open>drawn\<close> of values taken so far.
\<close>

record Statics =
  startPos :: "vec3 option"
  angle :: real
  goingForward :: bool
  turbulence :: "nat \<Rightarrow> real"
  drawn :: nat

definition initial_statics :: "(nat \<Rightarrow> real) \<Rightarrow> Statics" where
  "initial_statics t = \<lparr>startPos = None, angle = 0, goingForward = True, turbulence = t, drawn = 0\<rparr>"

record ClothSystem =
  particles :: "Particle list"
  springs :: "Spring list"
  spheres :: "CollisionSphere list"
  gravity :: real
  damping :: real
  windStrength :: real
  tearThreshold :: real
  elapsedTime :: real
  windDirection :: vec3
  gridWidth :: int
  gridHeight :: int
  clothWidth :: real
  clothHeight :: real
  objectMoveTime :: real
  objectMoveSpeed :: real
  objectMoveRange :: real
  windVariationTime :: real
  windVariationStrength :: real
  vertices :: "real list"
  indices :: "int list"
  statics :: Statics

definition fixedTimeStep :: real where
  "fixedTimeStep = 1 / 60"

section \<open>Errors and checked indexing\<close>

text \<open>
  \<open>OutOfRange\<close>: \<^verbatim>\<open>operator[]\<close> of a \<^verbatim>\<open>std::vector\<close> outside its bounds (undefined
  behaviour in C++; the model stops there). \<open>LengthError\<close>: the \<^verbatim>\<open>std::length_error\<close> of
  a \<^verbatim>\<open>std::vector\<close> constructed with a negative \<^verbatim>\<open>int\<close> as its size.
\<close>

datatype error = OutOfRange | LengthError

definition bindE :: "error + 'a \<Rightarrow> ('a \<Rightarrow> error + 'b) \<Rightarrow> error + 'b" where
  "bindE m f = (case m of Inl e \<Rightarrow> Inl e | Inr a \<Rightarrow> f a)"

definition elemAt :: "'a list \<Rightarrow> int \<Rightarrow> error + 'a" where
  "elemAt xs i = (if 0 \<le> i \<and> i < int (length xs) then Inr (xs ! nat i) else Inl OutOfRange)"

definition upd :: "'a list \<Rightarrow> int \<Rightarrow> 'a \<Rightarrow> error + 'a list" where
  "upd xs i v = (if 0 \<le> i \<and> i < int (length xs) then Inr (xs[nat i := v]) else Inl OutOfRange)"

text \<open>
  A loop whose body may fail: the iterations in order, stopping at the first error.
\<close>

fun foldE :: "('a \<Rightarrow> 'b \<Rightarrow> error + 'b) \<Rightarrow> 'a list \<Rightarrow> 'b \<Rightarrow> error + 'b" where
  "foldE f [] acc = Inr acc"
| "foldE f (x # xs) acc = bindE (f x acc) (foldE f xs)"

text \<open>
  \<^verbatim>\<open>a && b\<close> on conditions that index a vector: \<open>b\<close>
  counts only when \<open>a\<close> is true.
\<close>

definition andE :: "error + bool \<Rightarrow> error + bool \<Rightarrow> error + bool" where
  "andE a b = bindE a (\<lambda>c. if c then b else Inr False)"

text \<open>
  The iterations of \<^verbatim>\<open>for (y = 0; y < h; ++y) for (x = 0; x < w; ++x)\<close>, in order, as
  pairs \<open>(x, y)\<close>.
\<close>

definition grid_cells :: "int \<Rightarrow> int \<Rightarrow> (int \<times> int) list" where
  "grid_cells w h = concat (map (\<lambda>y. map (\<lambda>x. (x, y)) [0..w - 1]) [0..h - 1])"

section \<open>Mesh derivation\<close>

definition offsets :: "(int \<times> int) list" where
  "offsets = [(1, 0), (-1, 0), (0, 1), (0, -1), (1, 1), (-1, -1), (1, -1), (-1, 1)]"

text \<open>
  One iteration of the loop of \<^verbatim>\<open>calculateNormal\<close>, on
  \<open>offsets[i]\<close> and \<open>offsets[i + 1]\<close>.
\<close>

definition normal_step ::
  "ClothSystem \<Rightarrow> int \<Rightarrow> int \<Rightarrow> Particle \<Rightarrow> (int \<times> int) \<times> (int \<times> int) \<Rightarrow> vec3 \<times> int \<Rightarrow> error + (vec3 \<times> int)" where
  "normal_step s x y p = (\<lambda>((dx1, dy1), (dx2, dy2)) (normal, validNeighbors).
     let x1 = x + dx1; y1 = y + dy1; x2 = x + dx2; y2 = y + dy2;
         W = gridWidth s; H = gridHeight s
     in if 0 \<le> x1 \<and> x1 < W \<and> 0 \<le> y1 \<and> y1 < H \<and> 0 \<le> x2 \<and> x2 < W \<and> 0 \<le> y2 \<and> y2 < H
        then bindE (elemAt (particles s) (y1 * W + x1)) (\<lambda>q1.
               if active q1
               then bindE (elemAt (particles s) (y2 * W + x2)) (\<lambda>q2.
                      if active q2
                      then Inr (vadd normal (cross (vsub (position q1) (position p))
                                                   (vsub (position q2) (position p))),
                                validNeighbors + 1)
                      else Inr (normal, validNeighbors))
               else Inr (normal, validNeighbors))
        else Inr (normal, validNeighbors))"

definition calculateNormal :: "ClothSystem \<Rightarrow> int \<Rightarrow> int \<Rightarrow> error + vec3" where
  "calculateNormal s x y =
     bindE (elemAt (particles s) (y * gridWidth s + x)) (\<lambda>p.
       if \<not> active p then Inr (Vec3 0 0 1)
       else bindE (foldE (normal_step s x y p) (zip offsets (tl offsets)) (vzero, 0))
              (\<lambda>(normal, validNeighbors).
                 if validNeighbors > 0 then Inr (normalize normal) else Inr (Vec3 0 0 1)))"

text \<open>
  The first loop of \<^verbatim>\<open>updateVertexData\<close>; the loop state is
  \<open>(gridToVertex, vertexCount, vertices)\<close>.
\<close>

definition vertex_step ::
  "ClothSystem \<Rightarrow> int \<times> int \<Rightarrow> int list \<times> int \<times> real list \<Rightarrow> error + (int list \<times> int \<times> real list)" where
  "vertex_step s = (\<lambda>(x, y) (gridToVertex, vertexCount, vs).
     let gridIndex = y * gridWidth s + x
     in bindE (elemAt (particles s) gridIndex) (\<lambda>p.
          if \<not> active p then Inr (gridToVertex, vertexCount, vs)
          else bindE (upd gridToVertex gridIndex vertexCount) (\<lambda>gridToVertex'.
                 bindE (calculateNormal s x y) (\<lambda>normal.
                   Inr (gridToVertex', vertexCount + 1,
                        vs @ [vx (position p), vy (position p), vz (position p),
                              vx normal, vy normal, vz normal,
                              real_of_int x / real_of_int (gridWidth s - 1),
                              real_of_int y / real_of_int (gridHeight s - 1)])))))"

definition activeAt :: "Particle list \<Rightarrow> int \<Rightarrow> error + bool" where
  "activeAt ps i = bindE (elemAt ps i) (\<lambda>p. Inr (active p))"

definition mappedAt :: "int list \<Rightarrow> int \<Rightarrow> error + bool" where
  "mappedAt g i = bindE (elemAt g i) (\<lambda>v. Inr (v \<noteq> - 1))"

text \<open>
  The second loop of \<^verbatim>\<open>updateVertexData\<close>: the two triangles of the
  quad at \<open>(x, y)\<close>.
\<close>

definition quad_step ::
  "ClothSystem \<Rightarrow> int list \<Rightarrow> int \<times> int \<Rightarrow> int list \<Rightarrow> error + int list" where
  "quad_step s gridToVertex = (\<lambda>(x, y) idx.
     let topLeft = y * gridWidth s + x;
         topRight = y * gridWidth s + (x + 1);
         bottomLeft = (y + 1) * gridWidth s + x;
         bottomRight = (y + 1) * gridWidth s + (x + 1)
     in bindE (andE (activeAt (particles s) topLeft) (andE (activeAt (particles s) topRight)
              (andE (activeAt (particles s) bottomLeft) (andE (activeAt (particles s) bottomRight)
              (andE (mappedAt gridToVertex topLeft) (andE (mappedAt gridToVertex topRight)
              (andE (mappedAt gridToVertex bottomLeft) (mappedAt gridToVertex bottomRight))))))))
          (\<lambda>c. if c
                then bindE (elemAt gridToVertex topLeft) (\<lambda>tl.
                     bindE (elemAt gridToVertex bottomLeft) (\<lambda>bl.
                     bindE (elemAt gridToVertex topRight) (\<lambda>tr.
                     bindE (elemAt gridToVertex bottomRight) (\<lambda>br.
                       Inr (idx @ [tl, bl, tr, tr, bl, br])))))
                else Inr idx))"

text \<open>
  \<^verbatim>\<open>updateVertexData\<close>. The index buffer holds \<^verbatim>\<open>unsigned int\<close>; every value pushed is
  a vertex count, so no conversion of a negative number takes place.
\<close>

definition updateVertexData :: "ClothSystem \<Rightarrow> error + ClothSystem" where
  "updateVertexData s =
     (if gridWidth s * gridHeight s < 0 then Inl LengthError
      else bindE (foldE (vertex_step s) (grid_cells (gridWidth s) (gridHeight s))
                    (replicate (nat (gridWidth s * gridHeight s)) (- 1), 0, []))
             (\<lambda>(gridToVertex, vertexCount, vs).
                bindE (foldE (quad_step s gridToVertex)
                         (grid_cells (gridWidth s - 1) (gridHeight s - 1)) [])
                  (\<lambda>idx. Inr (s\<lparr>vertices := vs, indices := idx\<rparr>))))"

section \<open>Grid construction\<close>

definition make_particle :: "ClothSystem \<Rightarrow> int \<times> int \<Rightarrow> Particle" where
  "make_particle s = (\<lambda>(x, y).
     let px = (real_of_int x / real_of_int (gridWidth s - 1)) * clothWidth s - clothWidth s * 0.5;
         py = (real_of_int y / real_of_int (gridHeight s - 1)) * clothHeight s;
         pz = 0;
         p = Particle_ctor (Vec3 px py pz)
     in if y = gridHeight s - 1 then p\<lparr>pinned := True\<rparr> else p)"

text \<open>
  \<^verbatim>\<open>if (c) { length = glm::length(particles[b].position - particles[a].position);
  springs.emplace_back(a, b, length, k, t); }\<close>
\<close>

definition add_spring ::
  "bool \<Rightarrow> Particle list \<Rightarrow> int \<Rightarrow> int \<Rightarrow> real \<Rightarrow> SpringType \<Rightarrow> Spring list \<Rightarrow> error + Spring list" where
  "add_spring c ps a b k t sps =
     (if c
      then bindE (elemAt ps b) (\<lambda>pb. bindE (elemAt ps a) (\<lambda>pa.
             Inr (sps @ [Spring_ctor a b (vlength (vsub (position pb) (position pa))) k t])))
      else Inr sps)"

definition spring_step ::
  "ClothSystem \<Rightarrow> Particle list \<Rightarrow> int \<times> int \<Rightarrow> Spring list \<Rightarrow> error + Spring list" where
  "spring_step s ps = (\<lambda>(x, y) sps0.
     let W = gridWidth s; H = gridHeight s; current = y * W + x
     in bindE (add_spring (x < W - 1) ps current (y * W + (x + 1)) 0.7 STRUCTURAL sps0) (\<lambda>sps1.
        bindE (add_spring (y < H - 1) ps current ((y + 1) * W + x) 0.7 STRUCTURAL sps1) (\<lambda>sps2.
        bindE (add_spring (x < W - 1 \<and> y < H - 1) ps current ((y + 1) * W + (x + 1)) 0.3 SHEAR sps2) (\<lambda>sps3.
        bindE (add_spring (x > 0 \<and> y < H - 1) ps current ((y + 1) * W + (x - 1)) 0.3 SHEAR sps3) (\<lambda>sps4.
        bindE (add_spring (x < W - 2) ps current (y * W + (x + 2)) 0.15 BEND sps4) (\<lambda>sps5.
        add_spring (y < H - 2) ps current ((y + 2) * W + x) 0.15 BEND sps5))))))"

definition createClothGrid :: "ClothSystem \<Rightarrow> error + ClothSystem" where
  "createClothGrid s =
     (let ps = map (make_particle s) (grid_cells (gridWidth s) (gridHeight s))
      in bindE (foldE (spring_step s ps) (grid_cells (gridWidth s) (gridHeight s)) [])
           (\<lambda>sps. updateVertexData (s\<lparr>particles := ps, springs := sps\<rparr>)))"

text \<open>
  The object as its member initialisers leave it, before the body of the constructor
  runs; \<open>st\<close> is the state of the function-local statics of the process.
\<close>

definition initial_system :: "int \<Rightarrow> int \<Rightarrow> real \<Rightarrow> real \<Rightarrow> Statics \<Rightarrow> ClothSystem" where
  "initial_system width height w h st =
     \<lparr>particles = [], springs = [], spheres = [],
      gravity = - 9.81, damping = 0.99, windStrength = 0, tearThreshold = 2,
      elapsedTime = 0, windDirection = Vec3 1 0 0.5,
      gridWidth = width, gridHeight = height, clothWidth = w, clothHeight = h,
      objectMoveTime = 4, objectMoveSpeed = 0.8, objectMoveRange = 8,
      windVariationTime = 0, windVariationStrength = 0.3,
      vertices = [], indices = [], statics = st\<rparr>"

text \<open>The constructor \<^verbatim>\<open>ClothSystem(width, height, w, h)\<close>.\<close>

definition ClothSystem_ctor :: "int \<Rightarrow> int \<Rightarrow> real \<Rightarrow> real \<Rightarrow> Statics \<Rightarrow> error + ClothSystem" where
  "ClothSystem_ctor width height w h st = createClothGrid (initial_system width height w h st)"

definition reset :: "ClothSystem \<Rightarrow> error + ClothSystem" where
  "reset s = createClothGrid s"

section \<open>Forces and integration\<close>

text \<open>
  \<^verbatim>\<open>applyWindForce\<close>, in the pieces it computes one after the other. \<open>wind\<close> is the
  local \<^verbatim>\<open>wind\<close> once the turbulence is added (the three calls \<^verbatim>\<open>turbulence(gen)\<close> take
  the next three values of the sequence), \<open>relativeVelocity\<close> the local of that name, and
  \<open>windForce\<close> the drag computed from it inside the \<^verbatim>\<open>if\<close>.
\<close>

definition wind :: "ClothSystem \<Rightarrow> Statics \<Rightarrow> vec3" where
  "wind s st =
     (let wind0 = vscale (windDirection s) (windStrength s);
          turbulenceVec = Vec3 (turbulence st (drawn st) * 0.3)
                               (turbulence st (drawn st + 1) * 0.2)
                               (turbulence st (drawn st + 2) * 0.3)
      in vadd wind0 (vscale turbulenceVec (windStrength s)))"

definition relativeVelocity :: "ClothSystem \<Rightarrow> Statics \<Rightarrow> Particle \<Rightarrow> vec3" where
  "relativeVelocity s st particle = vsub (wind s st) (velocity particle)"

definition windForce :: "vec3 \<Rightarrow> vec3" where
  "windForce relVel =
     (let velocityMagnitude = vlength relVel;
          normalizedVelocity = vdivs relVel velocityMagnitude;
          dragCoefficient = 0.1
      in vscale (vscale (vscale normalizedVelocity velocityMagnitude) velocityMagnitude) dragCoefficient)"

definition applyWindForce :: "ClothSystem \<Rightarrow> Statics \<Rightarrow> Particle \<Rightarrow> Particle \<times> Statics" where
  "applyWindForce s st particle =
     (let relVel = relativeVelocity s st particle;
          st' = st\<lparr>drawn := drawn st + 3\<rparr>;
          velocityMagnitude = vlength relVel
      in if velocityMagnitude > 0
         then (particle\<lparr>force := vadd (force particle) (vscale (windForce relVel) (mass particle))\<rparr>, st')
         else (particle, st'))"

text \<open>The body of the loop of \<^verbatim>\<open>applyForces\<close>.\<close>

definition applyForces_particle :: "ClothSystem \<Rightarrow> Statics \<Rightarrow> Particle \<Rightarrow> Particle \<times> Statics" where
  "applyForces_particle s st particle =
     (if \<not> active particle \<or> pinned particle then (particle, st)
      else let p1 = particle\<lparr>force := vzero\<rparr>;
               p2 = p1\<lparr>force := Vec3 (vx (force p1)) (vy (force p1) + gravity s * mass p1) (vz (force p1))\<rparr>
           in if windStrength s > 0 then applyWindForce s st p2 else (p2, st))"

fun applyForces_loop :: "ClothSystem \<Rightarrow> Particle list \<Rightarrow> Statics \<Rightarrow> Particle list \<times> Statics" where
  "applyForces_loop s [] st = ([], st)"
| "applyForces_loop s (particle # rest) st =
     (let (particle', st1) = applyForces_particle s st particle;
          (rest', st2) = applyForces_loop s rest st1
      in (particle' # rest', st2))"

definition applyForces :: "ClothSystem \<Rightarrow> ClothSystem" where
  "applyForces s =
     (let (ps, st) = applyForces_loop s (particles s) (statics s)
      in s\<lparr>particles := ps, statics := st\<rparr>)"

definition integrate_particle :: "ClothSystem \<Rightarrow> real \<Rightarrow> Particle \<Rightarrow> Particle" where
  "integrate_particle s deltaTime particle =
     (if pinned particle \<or> \<not> active particle then particle
      else let acceleration = vdivs (force particle) (mass particle);
               newPosition = vadd (vadd (position particle)
                                        (vscale (vsub (position particle) (oldPosition particle)) (damping s)))
                                  (vscale (vscale acceleration deltaTime) deltaTime)
           in particle\<lparr>oldPosition := position particle, position := newPosition\<rparr>)"

definition integrateVerlet :: "ClothSystem \<Rightarrow> real \<Rightarrow> ClothSystem" where
  "integrateVerlet s deltaTime = s\<lparr>particles := map (integrate_particle s deltaTime) (particles s)\<rparr>"

section \<open>Constraints and tearing\<close>

definition checkTearing :: "ClothSystem \<Rightarrow> Spring \<Rightarrow> error + bool" where
  "checkTearing s spring =
     bindE (elemAt (particles s) (particle1 spring)) (\<lambda>p1.
     bindE (elemAt (particles s) (particle2 spring)) (\<lambda>p2.
       let distance = vlength (vsub (position p2) (position p1))
       in Inr (distance > restLength spring * tearThreshold s)))"

text \<open>
  The body of the loop of \<^verbatim>\<open>satisfyConstraints\<close> on the spring at index \<open>i\<close>. Where the
  two positions are written, \<open>p1\<close> and \<open>p2\<close> are different particles: a spring from a
  particle to itself has distance 0 and was skipped.
\<close>

definition constraint_step :: "nat \<Rightarrow> ClothSystem \<Rightarrow> error + ClothSystem" where
  "constraint_step i s =
     (let spring = springs s ! i
      in if \<not> sactive spring then Inr s
         else bindE (elemAt (particles s) (particle1 spring)) (\<lambda>p1.
              bindE (elemAt (particles s) (particle2 spring)) (\<lambda>p2.
                if \<not> active p1 \<or> \<not> active p2 then Inr s
                else let delta = vsub (position p2) (position p1);
                         distance = vlength delta
                     in if distance < 1 / 1000000 then Inr s
                        else bindE (checkTearing s spring) (\<lambda>torn.
                          if torn then Inr (s\<lparr>springs := (springs s)[i := spring\<lparr>sactive := False\<rparr>]\<rparr>)
                          else let difference = (restLength spring - distance) / distance;
                                   translate = vscale (vscale delta difference) (stiffness spring);
                                   totalMass = mass p1 + mass p2;
                                   ratio1 = mass p2 / totalMass;
                                   ratio2 = mass p1 / totalMass;
                                   ps1 = (if \<not> pinned p1
                                          then (particles s)[nat (particle1 spring) :=
                                                 p1\<lparr>position := vsub (position p1) (vscale translate ratio1)\<rparr>]
                                          else particles s);
                                   ps2 = (if \<not> pinned p2
                                          then ps1[nat (particle2 spring) :=
                                                 p2\<lparr>position := vadd (position p2) (vscale translate ratio2)\<rparr>]
                                          else ps1)
                               in Inr (s\<lparr>particles := ps2\<rparr>)))))"

definition satisfyConstraints :: "ClothSystem \<Rightarrow> error + ClothSystem" where
  "satisfyConstraints s = foldE constraint_step [0..<length (springs s)] s"

section \<open>Collisions\<close>

definition collide_sphere :: "CollisionSphere \<Rightarrow> Particle \<Rightarrow> Particle" where
  "collide_sphere sphere particle =
     (let diff = vsub (position particle) (center sphere);
          distance = vlength diff
      in if distance < radius sphere
         then let normal = (if distance > 1 / 1000000 then vdivs diff distance else Vec3 0 1 0);
                  pos = vadd (center sphere) (vscale normal (radius sphere));
                  vel = vsub pos (oldPosition particle);
                  vn = dot vel normal;
                  vNormal = vscale normal vn;
                  vTangent = vsub vel vNormal;
                  bounce = 0.2;
                  friction = 0.9;
                  newVelocity = vsub (vscale vTangent friction) (vscale vNormal bounce)
              in particle\<lparr>position := pos, oldPosition := vsub pos newVelocity\<rparr>
         else particle)"

definition collide_ground :: "Particle \<Rightarrow> Particle" where
  "collide_ground particle =
     (if vy (position particle) < - 5
      then let pos = Vec3 (vx (position particle)) (- 5) (vz (position particle));
               vel = vsub pos (oldPosition particle)
           in particle\<lparr>position := pos, oldPosition := vsub pos (vscale vel 0.4)\<rparr>
      else particle)"

definition collide_particle :: "ClothSystem \<Rightarrow> Particle \<Rightarrow> Particle" where
  "collide_particle s particle =
     (if \<not> active particle then particle
      else collide_ground (fold collide_sphere (spheres s) particle))"

definition handleCollisions :: "ClothSystem \<Rightarrow> ClothSystem" where
  "handleCollisions s = s\<lparr>particles := map (collide_particle s) (particles s)\<rparr>"

section \<open>Secondary animations\<close>

definition updateObjectMovement :: "ClothSystem \<Rightarrow> real \<Rightarrow> ClothSystem" where
  "updateObjectMovement s deltaTime =
     (if spheres s = [] then s
      else let sphere0 = hd (spheres s);
               start = (case startPos (statics s) of None \<Rightarrow> center sphere0 | Some v \<Rightarrow> v);
               st = (statics s)\<lparr>startPos := Some start\<rparr>;
               moveTime = objectMoveTime s + deltaTime * objectMoveSpeed s;
               r = objectMoveRange s * 0.5
           in if goingForward st
              then let c = Vec3 (vx (center sphere0)) (vy (center sphere0)) (vz start - moveTime);
                       st' = (if vz c \<le> vz start - objectMoveRange s
                              then st\<lparr>goingForward := False, angle := 0\<rparr> else st)
                   in s\<lparr>spheres := (spheres s)[0 := sphere0\<lparr>center := c\<rparr>],
                        objectMoveTime := moveTime, statics := st'\<rparr>
              else let a = angle st + deltaTime * objectMoveSpeed s;
                       x = vx start + r * sin a;
                       z = (vz start - objectMoveRange s) + r * (1 - cos a);
                       c = Vec3 x (vy start) z
                   in if a \<ge> 3.14159
                      then s\<lparr>spheres := (spheres s)[0 := sphere0\<lparr>center := start\<rparr>],
                             objectMoveTime := 0,
                             statics := st\<lparr>angle := a, goingForward := True\<rparr>\<rparr>
                      else s\<lparr>spheres := (spheres s)[0 := sphere0\<lparr>center := c\<rparr>],
                             objectMoveTime := moveTime,
                             statics := st\<lparr>angle := a\<rparr>\<rparr>)"

definition updateWindVariation :: "ClothSystem \<Rightarrow> real \<Rightarrow> ClothSystem" where
  "updateWindVariation s deltaTime =
     (if windStrength s < 1 then s
      else let t = windVariationTime s + deltaTime * 3;
               variationX = sin (t * 1.5) * windVariationStrength s;
               variationY = sin (t * 2.3) * windVariationStrength s * 0.5;
               variationZ = cos (t * 1.8) * windVariationStrength s * 0.3;
               baseWind = normalize (Vec3 0 0 (- 1));
               variedWind = vadd baseWind (Vec3 variationX variationY variationZ)
           in s\<lparr>windVariationTime := t, windDirection := normalize variedWind\<rparr>)"

section \<open>The update\<close>

text \<open>
  One pass of the body of the \<^verbatim>\<open>while\<close> loop of
  \<^verbatim>\<open>update\<close>, up to the collisions.
\<close>

definition physics_step :: "ClothSystem \<Rightarrow> error + ClothSystem" where
  "physics_step s =
     bindE (foldE (\<lambda>i. satisfyConstraints) [0 ..< 3] (integrateVerlet (applyForces s) fixedTimeStep))
       (\<lambda>s'. Inr (handleCollisions s'))"

text \<open>
  Facts about the error plumbing, needed for the termination of the loop of
  \<^verbatim>\<open>update\<close>.
\<close>

lemma bindE_Inr [simp]: "bindE (Inr a) f = f a"
  by (simp add: bindE_def)

lemma bindE_Inl [simp]: "bindE (Inl e) f = Inl e"
  by (simp add: bindE_def)

lemma bindE_eq_Inr: "bindE m f = Inr b \<longleftrightarrow> (\<exists>a. m = Inr a \<and> f a = Inr b)"
  by (cases m) simp_all

lemma foldE_inv:
  assumes "foldE f xs a = Inr b" and "P a"
    and "\<And>x c c'. x \<in> set xs \<Longrightarrow> P c \<Longrightarrow> f x c = Inr c' \<Longrightarrow> P c'"
  shows "P b"
  using assms
proof (induction xs arbitrary: a)
  case Nil
  then show ?case by simp
next
  case (Cons x xs)
  from Cons.prems(1) obtain c where c: "f x a = Inr c" and rest: "foldE f xs c = Inr b"
    by (auto simp: bindE_eq_Inr)
  have "P c" using Cons.prems(2,3) c by auto
  with rest Cons.prems(3) show ?case
    by (intro Cons.IH [of c]) auto
qed

lemma constraint_step_elapsedTime:
  "constraint_step i s = Inr s' \<Longrightarrow> elapsedTime s' = elapsedTime s"
  by (auto simp: constraint_step_def Let_def bindE_eq_Inr split: if_splits)

lemma satisfyConstraints_elapsedTime:
  assumes "satisfyConstraints s = Inr s'"
  shows "elapsedTime s' = elapsedTime s"
  using assms unfolding satisfyConstraints_def
  by (rule foldE_inv [where P = "\<lambda>c. elapsedTime c = elapsedTime s"])
     (simp_all add: constraint_step_elapsedTime)

lemma physics_step_elapsedTime:
  assumes "physics_step s = Inr s'"
  shows "elapsedTime s' = elapsedTime s"
proof -
  let ?s0 = "integrateVerlet (applyForces s) fixedTimeStep"
  from assms obtain s1 where f: "foldE (\<lambda>i. satisfyConstraints) [0 ..< 3] ?s0 = Inr s1"
    and s': "s' = handleCollisions s1"
    by (auto simp: physics_step_def bindE_eq_Inr)
  have "elapsedTime ?s0 = elapsedTime s"
    by (simp add: integrateVerlet_def applyForces_def split: prod.splits)
  with f have "elapsedTime s1 = elapsedTime s"
    by (elim foldE_inv [where P = "\<lambda>c. elapsedTime c = elapsedTime s"])
       (simp_all add: satisfyConstraints_elapsedTime)
  then show ?thesis by (simp add: s' handleCollisions_def)
qed

text \<open>
  The \<^verbatim>\<open>while (elapsedTime >= fixedTimeStep)\<close> loop of \<^verbatim>\<open>update\<close>. In real arithmetic
  every pass lowers \<open>elapsedTime\<close> by a sixtieth, so the loop ends.
\<close>

function physics_loop :: "ClothSystem \<Rightarrow> error + ClothSystem" where
  "physics_loop s =
     (if elapsedTime s \<ge> fixedTimeStep
      then (case physics_step s of
              Inl e \<Rightarrow> Inl e
            | Inr s' \<Rightarrow> physics_loop (s'\<lparr>elapsedTime := elapsedTime s' - fixedTimeStep\<rparr>))
      else Inr s)"
  by pat_completeness auto
termination
proof (relation "measure (\<lambda>s. nat \<lfloor>elapsedTime s * 60\<rfloor>)")
  show "wf (measure (\<lambda>s. nat \<lfloor>elapsedTime s * 60\<rfloor>))" by simp
next
  fix s s'
  assume ge: "fixedTimeStep \<le> elapsedTime s" and step: "physics_step s = Inr s'"
  have e: "elapsedTime s' = elapsedTime s" by (rule physics_step_elapsedTime [OF step])
  have "1 \<le> elapsedTime s * 60" using ge by (simp add: fixedTimeStep_def)
  then have one: "1 \<le> \<lfloor>elapsedTime s * 60\<rfloor>" by linarith
  have "(elapsedTime s - fixedTimeStep) * 60 = elapsedTime s * 60 - 1"
    by (simp add: fixedTimeStep_def algebra_simps)
  then have "\<lfloor>(elapsedTime s - fixedTimeStep) * 60\<rfloor> = \<lfloor>elapsedTime s * 60\<rfloor> - 1"
    by simp
  with one e show "(s'\<lparr>elapsedTime := elapsedTime s' - fixedTimeStep\<rparr>, s)
      \<in> measure (\<lambda>s. nat \<lfloor>elapsedTime s * 60\<rfloor>)"
    by simp
qed

declare physics_loop.simps [simp del]

definition update :: "ClothSystem \<Rightarrow> real \<Rightarrow> error + ClothSystem" where
  "update s deltaTime =
     bindE (physics_loop (s\<lparr>elapsedTime := elapsedTime s + deltaTime\<rparr>))
       (\<lambda>s'. updateVertexData (updateWindVariation (updateObjectMovement s' deltaTime) deltaTime))"

section \<open>Scenarios, interaction and parameters\<close>

definition addSphere :: "ClothSystem \<Rightarrow> vec3 \<Rightarrow> real \<Rightarrow> ClothSystem" where
  "addSphere s c r = s\<lparr>spheres := spheres s @ [\<lparr>center = c, radius = r\<rparr>]\<rparr>"

definition clearCollisionObjects :: "ClothSystem \<Rightarrow> ClothSystem" where
  "clearCollisionObjects s = s\<lparr>spheres := []\<rparr>"

text \<open>\<^verbatim>\<open>particles[i].pinned = true\<close>\<close>

definition pin :: "int \<Rightarrow> Particle list \<Rightarrow> error + Particle list" where
  "pin i ps = bindE (elemAt ps i) (\<lambda>p. upd ps i (p\<lparr>pinned := True\<rparr>))"

definition pin_top_row :: "ClothSystem \<Rightarrow> error + ClothSystem" where
  "pin_top_row s =
     bindE (foldE (\<lambda>x. pin ((gridHeight s - 1) * gridWidth s + x)) [0..gridWidth s - 1] (particles s))
       (\<lambda>ps. Inr (s\<lparr>particles := ps\<rparr>))"

definition setMode :: "ClothSystem \<Rightarrow> SimulationMode \<Rightarrow> error + ClothSystem" where
  "setMode s mode =
     bindE (reset s) (\<lambda>s0.
       case mode of
         TEAR \<Rightarrow> pin_top_row ((clearCollisionObjects s0)\<lparr>windStrength := 0\<rparr>)
       | COLLISION \<Rightarrow>
           (let s1 = (addSphere (clearCollisionObjects s0) (Vec3 0 1 6) 0.8)\<lparr>windStrength := 0\<rparr>
            in bindE (pin ((gridHeight s1 - 1) * gridWidth s1) (particles s1)) (\<lambda>ps1.
               bindE (pin ((gridHeight s1 - 1) * gridWidth s1 + (gridWidth s1 - 1)) ps1) (\<lambda>ps2.
                 Inr (s1\<lparr>particles := ps2\<rparr>))))
       | FLAG \<Rightarrow>
           pin_top_row ((clearCollisionObjects s0)
                          \<lparr>windStrength := 6, windDirection := normalize (Vec3 0 0 (- 1))\<rparr>))"

text \<open>
  The body of the outer loop of \<^verbatim>\<open>handleMouseInteraction\<close>, on the
  particle at index \<open>i\<close>.
\<close>

definition tear_step :: "vec3 \<Rightarrow> nat \<Rightarrow> ClothSystem \<Rightarrow> ClothSystem" where
  "tear_step mousePos i s =
     (let tearRadius = 0.08; p = particles s ! i
      in if \<not> active p then s
         else let distance = vlength (vsub (position p) mousePos)
              in if distance < tearRadius
                 then s\<lparr>particles := (particles s)[i := p\<lparr>active := False\<rparr>],
                        springs := map (\<lambda>spring. if particle1 spring = int i \<or> particle2 spring = int i
                                                  then spring\<lparr>sactive := False\<rparr> else spring)
                                     (springs s)\<rparr>
                 else s)"

definition handleMouseInteraction :: "ClothSystem \<Rightarrow> vec3 \<Rightarrow> bool \<Rightarrow> ClothSystem" where
  "handleMouseInteraction s mousePos tearing =
     (if \<not> tearing then s
      else fold (tear_step mousePos) [0..<length (particles s)] s)"

definition setGravity :: "ClothSystem \<Rightarrow> real \<Rightarrow> ClothSystem" where
  "setGravity s g = s\<lparr>gravity := g\<rparr>"

definition setDamping :: "ClothSystem \<Rightarrow> real \<Rightarrow> ClothSystem" where
  "setDamping s d = s\<lparr>damping := d\<rparr>"

definition setWindStrength :: "ClothSystem \<Rightarrow> real \<Rightarrow> ClothSystem" where
  "setWindStrength s w = s\<lparr>windStrength := w\<rparr>"

definition setWindDirection :: "ClothSystem \<Rightarrow> vec3 \<Rightarrow> ClothSystem" where
  "setWindDirection s dir = s\<lparr>windDirection := normalize dir\<rparr>"

definition setTearThreshold :: "ClothSystem \<Rightarrow> real \<Rightarrow> ClothSystem" where
  "setTearThreshold s t = s\<lparr>tearThreshold := t\<rparr>"

text \<open>The public operations, as values, and a sequence of calls run in order.\<close>

datatype call =
    Update real
  | SetMode SimulationMode
  | HandleMouseInteraction vec3 bool
  | Reset
  | SetGravity real
  | SetDamping real
  | SetWindStrength real
  | SetWindDirection vec3
  | SetTearThreshold real
  | AddSphere vec3 real
  | ClearCollisionObjects

fun perform :: "call \<Rightarrow> ClothSystem \<Rightarrow> error + ClothSystem" where
  "perform (Update deltaTime) s = update s deltaTime"
| "perform (SetMode mode) s = setMode s mode"
| "perform (HandleMouseInteraction mousePos tearing) s = Inr (handleMouseInteraction s mousePos tearing)"
| "perform Reset s = reset s"
| "perform (SetGravity g) s = Inr (setGravity s g)"
| "perform (SetDamping d) s = Inr (setDamping s d)"
| "perform (SetWindStrength w) s = Inr (setWindStrength s w)"
| "perform (SetWindDirection dir) s = Inr (setWindDirection s dir)"
| "perform (SetTearThreshold t) s = Inr (setTearThreshold s t)"
| "perform (AddSphere c r) s = Inr (addSphere s c r)"
| "perform ClearCollisionObjects s = Inr (clearCollisionObjects s)"

definition run :: "call list \<Rightarrow> ClothSystem \<Rightarrow> error + ClothSystem" where
  "run cs s = foldE perform cs s"

text \<open>The calls that rebuild the grid.\<close>

fun rebuilds :: "call \<Rightarrow> bool" where
  "rebuilds Reset = True"
| "rebuilds (SetMode mode) = True"
| "rebuilds c = False"

section \<open>Vocabulary of the statements\<close>

text \<open>
  The particle container has one particle per grid cell (what
  \<^verbatim>\<open>createClothGrid\<close> establishes).
\<close>

definition grid_ok :: "ClothSystem \<Rightarrow> bool" where
  "grid_ok s \<longleftrightarrow> 0 \<le> gridWidth s \<and> 0 \<le> gridHeight s \<and>
     int (length (particles s)) = gridWidth s * gridHeight s"

text \<open>
  The spring that \<^verbatim>\<open>createClothGrid\<close> places between the particles
  \<open>a\<close> and \<open>b\<close>, read without the bounds check; the lemmas below
  show that the checked loop computes it.
\<close>

definition spring_between :: "Particle list \<Rightarrow> int \<Rightarrow> int \<Rightarrow> real \<Rightarrow> SpringType \<Rightarrow> Spring" where
  "spring_between ps a b k t =
     Spring_ctor a b (vlength (vsub (position (ps ! nat b)) (position (ps ! nat a)))) k t"

definition spring_if :: "bool \<Rightarrow> Particle list \<Rightarrow> int \<Rightarrow> int \<Rightarrow> real \<Rightarrow> SpringType \<Rightarrow> Spring list" where
  "spring_if c ps a b k t = (if c then [spring_between ps a b k t] else [])"

text \<open>
  The springs of one grid cell, in the order of the six \<^verbatim>\<open>if\<close>
  statements.
\<close>

definition cell_springs :: "ClothSystem \<Rightarrow> Particle list \<Rightarrow> int \<times> int \<Rightarrow> Spring list" where
  "cell_springs s ps = (\<lambda>(x, y).
     let W = gridWidth s; H = gridHeight s; current = y * W + x
     in spring_if (x < W - 1) ps current (y * W + (x + 1)) 0.7 STRUCTURAL @
        spring_if (y < H - 1) ps current ((y + 1) * W + x) 0.7 STRUCTURAL @
        spring_if (x < W - 1 \<and> y < H - 1) ps current ((y + 1) * W + (x + 1)) 0.3 SHEAR @
        spring_if (x > 0 \<and> y < H - 1) ps current ((y + 1) * W + (x - 1)) 0.3 SHEAR @
        spring_if (x < W - 2) ps current (y * W + (x + 2)) 0.15 BEND @
        spring_if (y < H - 2) ps current ((y + 2) * W + x) 0.15 BEND)"

text \<open>The particles and the springs of a freshly built grid.\<close>

definition grid_particles :: "ClothSystem \<Rightarrow> Particle list" where
  "grid_particles s = map (make_particle s) (grid_cells (gridWidth s) (gridHeight s))"

definition grid_springs :: "ClothSystem \<Rightarrow> Spring list" where
  "grid_springs s =
     concat (map (cell_springs s (grid_particles s)) (grid_cells (gridWidth s) (gridHeight s)))"

text \<open>The Euclidean distance of two points.\<close>

definition euclidean_distance :: "vec3 \<Rightarrow> vec3 \<Rightarrow> real" where
  "euclidean_distance a b = sqrt ((vx a - vx b)\<^sup>2 + (vy a - vy b)\<^sup>2 + (vz a - vz b)\<^sup>2)"

text \<open>The number of springs of one type.\<close>

definition spring_count :: "SpringType \<Rightarrow> ClothSystem \<Rightarrow> nat" where
  "spring_count t s = length (filter (\<lambda>sp. stype sp = t) (springs s))"

text \<open>
  Every spring joins two particles of the container and its rest length is their distance.
\<close>

definition stress_free :: "ClothSystem \<Rightarrow> bool" where
  "stress_free s \<longleftrightarrow>
     (\<forall>sp\<in>set (springs s).
        0 \<le> particle1 sp \<and> particle1 sp < int (length (particles s)) \<and>
        0 \<le> particle2 sp \<and> particle2 sp < int (length (particles s)) \<and>
        restLength sp = euclidean_distance (position (particles s ! nat (particle1 sp)))
                                           (position (particles s ! nat (particle2 sp))))"

text \<open>
  The closed-form sizes of the containers of a \<open>W\<close> by \<open>H\<close> grid.
\<close>

definition grid_counts :: "int \<Rightarrow> int \<Rightarrow> ClothSystem \<Rightarrow> bool" where
  "grid_counts W H s \<longleftrightarrow>
     int (length (particles s)) = W * H \<and>
     int (spring_count STRUCTURAL s) = H * (W - 1) + W * (H - 1) \<and>
     int (spring_count SHEAR s) = 2 * (W - 1) * (H - 1) \<and>
     int (spring_count BEND s) = H * max (W - 2) 0 + W * max (H - 2) 0 \<and>
     length (springs s) = spring_count STRUCTURAL s + spring_count SHEAR s + spring_count BEND s"

text \<open>
  What an operation that does not rebuild the grid may do to a spring: nothing, or clear
  its \<open>sactive\<close> flag.
\<close>

definition torn_or_same :: "Spring \<Rightarrow> Spring \<Rightarrow> bool" where
  "torn_or_same sp sp' \<longleftrightarrow> sp' = sp \<or> sp' = sp\<lparr>sactive := False\<rparr>"

text \<open>The grid dimensions and the cloth extents are the same in both states.\<close>

definition same_frame :: "ClothSystem \<Rightarrow> ClothSystem \<Rightarrow> bool" where
  "same_frame s t \<longleftrightarrow> gridWidth t = gridWidth s \<and> gridHeight t = gridHeight s \<and>
     clothWidth t = clothWidth s \<and> clothHeight t = clothHeight s"

text \<open>Both ends of every spring are indices into the particle container.\<close>

definition springs_ok :: "ClothSystem \<Rightarrow> bool" where
  "springs_ok s \<longleftrightarrow>
     (\<forall>sp\<in>set (springs s). 0 \<le> particle1 sp \<and> particle1 sp < int (length (particles s)) \<and>
        0 \<le> particle2 sp \<and> particle2 sp < int (length (particles s)))"

text \<open>
  The relation between a state and a later one that the invariants below are stated in:
  particle by particle the relation \<open>R\<close>, spring by spring
  \<open>torn_or_same\<close>, on the same grid.
\<close>

definition evolves :: "(Particle \<Rightarrow> Particle \<Rightarrow> bool) \<Rightarrow> ClothSystem \<Rightarrow> ClothSystem \<Rightarrow> bool" where
  "evolves R s t \<longleftrightarrow> list_all2 R (particles s) (particles t) \<and>
     list_all2 torn_or_same (springs s) (springs t) \<and> same_frame s t"

text \<open>
  The relations on particles that the force, integration and constraint stages respect,
  and those the collision stage respects.
\<close>

definition motion_rel :: "(Particle \<Rightarrow> Particle \<Rightarrow> bool) \<Rightarrow> bool" where
  "motion_rel R \<longleftrightarrow> (\<forall>p. R p p) \<and> (\<forall>p q r. R p q \<longrightarrow> R q r \<longrightarrow> R p r) \<and>
     (\<forall>t st p. R p (fst (applyForces_particle t st p))) \<and>
     (\<forall>t d p. R p (integrate_particle t d p)) \<and>
     (\<forall>p v. \<not> pinned p \<longrightarrow> R p (p\<lparr>position := v\<rparr>))"

definition collision_rel :: "(Particle \<Rightarrow> Particle \<Rightarrow> bool) \<Rightarrow> bool" where
  "collision_rel R \<longleftrightarrow> (\<forall>t p. R p (collide_particle t p))"

text \<open>The relation that holds of any two particles.\<close>

definition any_motion :: "Particle \<Rightarrow> Particle \<Rightarrow> bool" where
  "any_motion p q \<longleftrightarrow> True"

text \<open>
  An active particle closer than \<^verbatim>\<open>tearRadius\<close> to the pointer.
\<close>

definition within_tear_radius :: "vec3 \<Rightarrow> Particle \<Rightarrow> bool" where
  "within_tear_radius mousePos p \<longleftrightarrow> active p \<and> vlength (vsub (position p) mousePos) < 0.08"

text \<open>A spring with such a particle of state \<open>s\<close> at one of its ends.\<close>

definition touches_torn :: "ClothSystem \<Rightarrow> vec3 \<Rightarrow> Spring \<Rightarrow> bool" where
  "touches_torn s mousePos sp \<longleftrightarrow>
     (\<exists>i<length (particles s). within_tear_radius mousePos (particles s ! i) \<and>
         (particle1 sp = int i \<or> particle2 sp = int i))"

text \<open>Every velocity field is the zero vector.\<close>

definition still :: "ClothSystem \<Rightarrow> bool" where
  "still s \<longleftrightarrow> (\<forall>p\<in>set (particles s). velocity p = vzero)"

definition same_velocity :: "Particle \<Rightarrow> Particle \<Rightarrow> bool" where
  "same_velocity p q \<longleftrightarrow> velocity q = velocity p"

text \<open>
  What \<^verbatim>\<open>setMode\<close> does to a particle of the rebuilt grid: nothing,
  or set its \<open>pinned\<close> flag.
\<close>

definition pin_rel :: "Particle \<Rightarrow> Particle \<Rightarrow> bool" where
  "pin_rel p q \<longleftrightarrow> q = p \<or> q = p\<lparr>pinned := True\<rparr>"

text \<open>The states the constructor builds and the operations keep.\<close>

definition well_formed :: "ClothSystem \<Rightarrow> bool" where
  "well_formed s \<longleftrightarrow> grid_ok s \<and> springs_ok s"

text \<open>A pinned particle is left exactly as it was.\<close>

definition frozen :: "Particle \<Rightarrow> Particle \<Rightarrow> bool" where
  "frozen p q \<longleftrightarrow> (pinned p \<longrightarrow> q = p)"

text \<open>
  The grid index of the cell \<open>(x, y)\<close>, and whether its particle is active.
\<close>

definition cell_index :: "ClothSystem \<Rightarrow> int \<times> int \<Rightarrow> int" where
  "cell_index s = (\<lambda>(x, y). y * gridWidth s + x)"

definition cell_active :: "ClothSystem \<Rightarrow> int \<times> int \<Rightarrow> bool" where
  "cell_active s c \<longleftrightarrow> active (particles s ! nat (cell_index s c))"

text \<open>
  The cells of the active particles in row-major order: the order in which
  \<^verbatim>\<open>updateVertexData\<close> emits the vertices.
\<close>

definition active_cells :: "ClothSystem \<Rightarrow> (int \<times> int) list" where
  "active_cells s = filter (cell_active s) (grid_cells (gridWidth s) (gridHeight s))"

text \<open>
  The number of active particles before the cell \<open>c\<close> in a list of cells; over
  the whole grid, the place of the vertex of \<open>c\<close> in the vertex buffer.
\<close>

definition slot_in :: "ClothSystem \<Rightarrow> (int \<times> int) list \<Rightarrow> int \<times> int \<Rightarrow> int" where
  "slot_in s cells c = int (length (filter (cell_active s) (takeWhile (\<lambda>d. d \<noteq> c) cells)))"

definition slot :: "ClothSystem \<Rightarrow> int \<times> int \<Rightarrow> int" where
  "slot s c = slot_in s (grid_cells (gridWidth s) (gridHeight s)) c"

text \<open>
  An eight-float vertex record of the cell \<open>c\<close>: the position of its particle,
  three floats of normal, and its texture coordinates.
\<close>

definition vertex_of :: "ClothSystem \<Rightarrow> int \<times> int \<Rightarrow> real list \<Rightarrow> bool" where
  "vertex_of s c r \<longleftrightarrow>
     length r = 8 \<and>
     take 3 r = (let p = position (particles s ! nat (cell_index s c)) in [vx p, vy p, vz p]) \<and>
     drop 6 r = [real_of_int (fst c) / real_of_int (gridWidth s - 1),
                 real_of_int (snd c) / real_of_int (gridHeight s - 1)]"

text \<open>
  All four corners of the quad at \<open>(x, y)\<close> are active; the six indices the
  quad then contributes.
\<close>

definition quad_active :: "ClothSystem \<Rightarrow> int \<times> int \<Rightarrow> bool" where
  "quad_active s = (\<lambda>(x, y). cell_active s (x, y) \<and> cell_active s (x + 1, y) \<and>
      cell_active s (x, y + 1) \<and> cell_active s (x + 1, y + 1))"

definition quad_triangles :: "ClothSystem \<Rightarrow> int \<times> int \<Rightarrow> int list" where
  "quad_triangles s = (\<lambda>(x, y).
     if quad_active s (x, y)
     then [slot s (x, y), slot s (x, y + 1), slot s (x + 1, y),
           slot s (x + 1, y), slot s (x, y + 1), slot s (x + 1, y + 1)]
     else [])"

text \<open>
  The invariant of the first loop of \<^verbatim>\<open>updateVertexData\<close> once the
  cells \<open>ys\<close> are done.
\<close>

definition vertex_inv :: "ClothSystem \<Rightarrow> (int \<times> int) list \<Rightarrow> int list \<times> int \<times> real list \<Rightarrow> bool" where
  "vertex_inv s ys = (\<lambda>(g, k, vs).
     length g = length (particles s) \<and>
     k = int (length (filter (cell_active s) ys)) \<and>
     (\<exists>recs. vs = concat recs \<and> list_all2 (vertex_of s) (filter (cell_active s) ys) recs) \<and>
     (\<forall>c\<in>set (grid_cells (gridWidth s) (gridHeight s)).
        g ! nat (cell_index s c) = (if c \<in> set ys \<and> cell_active s c then slot_in s ys c else - 1)))"

text \<open>
  The mesh stored in a state agrees with its particles: one vertex record per active
  particle in row-major order, the triangles of exactly the quads with four active
  corners, and every index the place of an existing vertex.
\<close>

definition mesh_consistent :: "ClothSystem \<Rightarrow> bool" where
  "mesh_consistent t \<longleftrightarrow>
     (\<exists>recs. vertices t = concat recs \<and> list_all2 (vertex_of t) (active_cells t) recs) \<and>
     indices t = concat (map (quad_triangles t) (grid_cells (gridWidth t - 1) (gridHeight t - 1))) \<and>
     (\<forall>i\<in>set (indices t). 0 \<le> i \<and> nat i < length (active_cells t)) \<and>
     (\<forall>c\<in>set (active_cells t). active_cells t ! nat (slot t c) = c)"

section \<open>Grid construction: facts\<close>

lemma foldE_ok_inv:
  assumes "P a"
    and "\<And>x c. x \<in> set xs \<Longrightarrow> P c \<Longrightarrow> \<exists>c'. f x c = Inr c' \<and> P c'"
  shows "\<exists>b. foldE f xs a = Inr b \<and> P b"
  using assms
proof (induction xs arbitrary: a)
  case Nil
  then show ?case by simp
next
  case (Cons x xs)
  from Cons.prems obtain c where c: "f x a = Inr c" "P c" by (meson list.set_intros(1))
  have "\<exists>b. foldE f xs c = Inr b \<and> P b"
    by (rule Cons.IH [OF c(2)]) (use Cons.prems(2) in auto)
  with c show ?case by simp
qed

lemma set_grid_cells: "set (grid_cells w h) = {(x, y). 0 \<le> x \<and> x < w \<and> 0 \<le> y \<and> y < h}"
  by (auto simp: grid_cells_def)

lemma in_grid_index:
  fixes x y W H :: int
  assumes "0 \<le> x" "x < W" "0 \<le> y" "y < H"
  shows "0 \<le> y * W + x" and "y * W + x < W * H"
proof -
  show "0 \<le> y * W + x" using assms by simp
  have "y * W + x < (y + 1) * W" using assms by (simp add: algebra_simps)
  also have "\<dots> \<le> H * W" using assms by (intro mult_right_mono) auto
  finally show "y * W + x < W * H" by (simp add: mult.commute)
qed

lemma length_filter_grid_cells:
  "length (filter (\<lambda>(x, y). P x \<and> Q y) (grid_cells w h)) =
     length (filter P [0..w - 1]) * length (filter Q [0..h - 1])"
proof -
  have "length (filter (\<lambda>(x, y). P x \<and> Q y) (concat (map (\<lambda>y. map (\<lambda>x. (x, y)) xs) ys))) =
          length (filter P xs) * length (filter Q ys)" for xs ys :: "int list"
    by (induction ys) (simp_all add: filter_map comp_def)
  then show ?thesis by (simp add: grid_cells_def)
qed

lemma length_upto0: "length [0..n - 1] = nat n"
  by simp

lemma filter_less_upto:
  assumes "0 \<le> k" "k \<le> n"
  shows "length (filter (\<lambda>x. x < k) [0..n - 1]) = nat k"
proof -
  have "[0..n - 1] = [0..k - 1] @ [k..n - 1]"
    using assms upto_split2 [of 0 "k - 1" "n - 1"] by (cases "k = 0") auto
  moreover have "filter (\<lambda>x. x < k) [0..k - 1] = [0..k - 1]" by (simp add: filter_id_conv)
  moreover have "filter (\<lambda>x. x < k) [k..n - 1] = []" by (simp add: filter_empty_conv)
  ultimately show ?thesis by simp
qed

lemma filter_pos_upto:
  assumes "1 \<le> n"
  shows "length (filter (\<lambda>x. 0 < x) [0..n - 1]) = nat (n - 1)"
proof -
  have "[0..n - 1] = 0 # [1..n - 1]" using assms by (simp add: upto_rec1)
  moreover have "filter (\<lambda>x. 0 < x) [1..n - 1] = [1..n - 1]" by (simp add: filter_id_conv)
  ultimately show ?thesis by simp
qed

lemma length_grid_cells: "length (grid_cells w h) = nat w * nat h"
  using length_filter_grid_cells [of "\<lambda>_. True" "\<lambda>_. True" w h] by simp

lemma elemAt_Inr: "0 \<le> i \<Longrightarrow> i < int (length xs) \<Longrightarrow> elemAt xs i = Inr (xs ! nat i)"
  by (simp add: elemAt_def)

lemma upd_Inr: "0 \<le> i \<Longrightarrow> i < int (length xs) \<Longrightarrow> upd xs i v = Inr (xs[nat i := v])"
  by (simp add: upd_def)

lemma grid_ok_index:
  assumes "grid_ok s" "0 \<le> x" "x < gridWidth s" "0 \<le> y" "y < gridHeight s"
  shows "0 \<le> y * gridWidth s + x" and "y * gridWidth s + x < int (length (particles s))"
  using in_grid_index [OF assms(2-5)] assms(1) by (simp_all add: grid_ok_def)

lemma normal_step_ok:
  assumes "grid_ok s"
  shows "\<exists>c'. normal_step s x y p d c = Inr c'"
proof -
  obtain dx1 dy1 dx2 dy2 where d: "d = ((dx1, dy1), (dx2, dy2))" by (metis surj_pair)
  obtain n k where c: "c = (n, k)" by (metis surj_pair)
  show ?thesis
    unfolding d c normal_step_def
    using grid_ok_index [OF assms]
    by (simp add: Let_def elemAt_Inr)
qed

lemma calculateNormal_ok:
  assumes "grid_ok s" "0 \<le> x" "x < gridWidth s" "0 \<le> y" "y < gridHeight s"
  shows "\<exists>n. calculateNormal s x y = Inr n"
proof -
  let ?p = "particles s ! nat (y * gridWidth s + x)"
  have "\<exists>b. foldE (normal_step s x y ?p) (zip offsets (tl offsets)) (vzero, 0) = Inr b \<and> True"
    by (rule foldE_ok_inv) (use normal_step_ok [OF assms(1)] in auto)
  then obtain n k where "foldE (normal_step s x y ?p) (zip offsets (tl offsets)) (vzero, 0) = Inr (n, k)"
    by (metis surj_pair)
  then show ?thesis
    unfolding calculateNormal_def
    using grid_ok_index [OF assms] by (simp add: elemAt_Inr)
qed

lemma vertex_step_ok:
  assumes "grid_ok s" "(x, y) \<in> set (grid_cells (gridWidth s) (gridHeight s))"
    and "length g = length (particles s)"
  shows "\<exists>g' k' v'. vertex_step s (x, y) (g, k, v) = Inr (g', k', v') \<and> length g' = length (particles s)"
proof -
  from assms(2) have xy: "0 \<le> x" "x < gridWidth s" "0 \<le> y" "y < gridHeight s"
    by (auto simp: set_grid_cells)
  from calculateNormal_ok [OF assms(1) xy] obtain n where n: "calculateNormal s x y = Inr n" ..
  show ?thesis
    unfolding vertex_step_def
    using grid_ok_index [OF assms(1) xy] n assms(3)
    by (simp add: Let_def elemAt_Inr upd_Inr)
qed

lemma quad_step_ok:
  assumes "grid_ok s" "(x, y) \<in> set (grid_cells (gridWidth s - 1) (gridHeight s - 1))"
    and "length g = length (particles s)"
  shows "\<exists>idx'. quad_step s g (x, y) idx = Inr idx'"
proof -
  from assms(2) have xy: "0 \<le> x" "x < gridWidth s - 1" "0 \<le> y" "y < gridHeight s - 1"
    by (auto simp: set_grid_cells)
  have a: "0 \<le> y * gridWidth s + x" "y * gridWidth s + x < int (length (particles s))"
    using grid_ok_index [OF assms(1), of x y] xy by auto
  have b: "0 \<le> y * gridWidth s + (x + 1)" "y * gridWidth s + (x + 1) < int (length (particles s))"
    using grid_ok_index [OF assms(1), of "x + 1" y] xy by auto
  have c: "0 \<le> (y + 1) * gridWidth s + x" "(y + 1) * gridWidth s + x < int (length (particles s))"
    using grid_ok_index [OF assms(1), of x "y + 1"] xy by auto
  have d: "0 \<le> (y + 1) * gridWidth s + (x + 1)" "(y + 1) * gridWidth s + (x + 1) < int (length (particles s))"
    using grid_ok_index [OF assms(1), of "x + 1" "y + 1"] xy by auto
  show ?thesis
    unfolding quad_step_def
    using a b c d assms(3)
    by (simp add: Let_def elemAt_Inr andE_def activeAt_def mappedAt_def)
qed

lemma updateVertexData_ok:
  assumes "grid_ok s"
  shows "\<exists>vs idx. updateVertexData s = Inr (s\<lparr>vertices := vs, indices := idx\<rparr>)"
proof -
  let ?n = "nat (gridWidth s * gridHeight s)"
  have len: "length (replicate ?n (- 1 :: int)) = length (particles s)"
    using assms by (auto simp: grid_ok_def dest: sym)
  have "\<exists>b. foldE (vertex_step s) (grid_cells (gridWidth s) (gridHeight s)) (replicate ?n (- 1), 0, []) = Inr b
          \<and> (case b of (g, k, v) \<Rightarrow> length g = length (particles s))"
    by (rule foldE_ok_inv) (use len vertex_step_ok [OF assms] in auto)
  then obtain g k v where 1: "foldE (vertex_step s) (grid_cells (gridWidth s) (gridHeight s)) (replicate ?n (- 1), 0, []) = Inr (g, k, v)"
    and g: "length g = length (particles s)" by auto
  have "\<exists>b. foldE (quad_step s g) (grid_cells (gridWidth s - 1) (gridHeight s - 1)) [] = Inr b \<and> True"
    by (rule foldE_ok_inv) (use quad_step_ok [OF assms _ g] in auto)
  then obtain idx where 2: "foldE (quad_step s g) (grid_cells (gridWidth s - 1) (gridHeight s - 1)) [] = Inr idx"
    by auto
  have "0 \<le> gridWidth s * gridHeight s" using assms by (simp add: grid_ok_def)
  then show ?thesis unfolding updateVertexData_def using 1 2 by auto
qed

lemma add_spring_eq:
  assumes "c \<Longrightarrow> 0 \<le> a \<and> a < int (length ps) \<and> 0 \<le> b \<and> b < int (length ps)"
  shows "add_spring c ps a b k t sps = Inr (sps @ spring_if c ps a b k t)"
  using assms by (simp add: add_spring_def spring_if_def spring_between_def elemAt_Inr)

lemma spring_step_eq:
  assumes len: "int (length ps) = gridWidth s * gridHeight s"
    and xy: "0 \<le> x" "x < gridWidth s" "0 \<le> y" "y < gridHeight s"
  shows "spring_step s ps (x, y) sps = Inr (sps @ cell_springs s ps (x, y))"
proof -
  let ?W = "gridWidth s" and ?H = "gridHeight s"
  have r: "0 \<le> y' * ?W + x' \<and> y' * ?W + x' < int (length ps)"
    if "0 \<le> x'" "x' < ?W" "0 \<le> y'" "y' < ?H" for x' y'
    using in_grid_index [OF that] len by simp
  have 0: "0 \<le> y * ?W + x \<and> y * ?W + x < int (length ps)" using r xy by simp
  have 1: "add_spring (x < ?W - 1) ps (y * ?W + x) (y * ?W + (x + 1)) k t a =
             Inr (a @ spring_if (x < ?W - 1) ps (y * ?W + x) (y * ?W + (x + 1)) k t)" for k t a
    by (rule add_spring_eq) (use 0 r [of "x + 1" y] xy in auto)
  have 2: "add_spring (y < ?H - 1) ps (y * ?W + x) ((y + 1) * ?W + x) k t a =
             Inr (a @ spring_if (y < ?H - 1) ps (y * ?W + x) ((y + 1) * ?W + x) k t)" for k t a
    by (rule add_spring_eq) (use 0 r [of x "y + 1"] xy in auto)
  have 3: "add_spring (x < ?W - 1 \<and> y < ?H - 1) ps (y * ?W + x) ((y + 1) * ?W + (x + 1)) k t a =
             Inr (a @ spring_if (x < ?W - 1 \<and> y < ?H - 1) ps (y * ?W + x) ((y + 1) * ?W + (x + 1)) k t)" for k t a
    by (rule add_spring_eq) (use 0 r [of "x + 1" "y + 1"] xy in auto)
  have 4: "add_spring (x > 0 \<and> y < ?H - 1) ps (y * ?W + x) ((y + 1) * ?W + (x - 1)) k t a =
             Inr (a @ spring_if (x > 0 \<and> y < ?H - 1) ps (y * ?W + x) ((y + 1) * ?W + (x - 1)) k t)" for k t a
    by (rule add_spring_eq) (use 0 r [of "x - 1" "y + 1"] xy in auto)
  have 5: "add_spring (x < ?W - 2) ps (y * ?W + x) (y * ?W + (x + 2)) k t a =
             Inr (a @ spring_if (x < ?W - 2) ps (y * ?W + x) (y * ?W + (x + 2)) k t)" for k t a
    by (rule add_spring_eq) (use 0 r [of "x + 2" y] xy in auto)
  have 6: "add_spring (y < ?H - 2) ps (y * ?W + x) ((y + 2) * ?W + x) k t a =
             Inr (a @ spring_if (y < ?H - 2) ps (y * ?W + x) ((y + 2) * ?W + x) k t)" for k t a
    by (rule add_spring_eq) (use 0 r [of x "y + 2"] xy in auto)
  show ?thesis
    unfolding spring_step_def cell_springs_def
    by (simp add: Let_def 1 2 3 4 5 6)
qed

lemma spring_loop_eq:
  assumes "int (length ps) = gridWidth s * gridHeight s"
    and "set cells \<subseteq> set (grid_cells (gridWidth s) (gridHeight s))"
  shows "foldE (spring_step s ps) cells sps = Inr (sps @ concat (map (cell_springs s ps) cells))"
  using assms(2)
proof (induction cells arbitrary: sps)
  case Nil
  then show ?case by simp
next
  case (Cons c cells)
  obtain x y where c: "c = (x, y)" by (cases c)
  with Cons.prems have xy: "0 \<le> x" "x < gridWidth s" "0 \<le> y" "y < gridHeight s"
    by (auto simp: set_grid_cells)
  show ?case
    using Cons.IH Cons.prems by (simp add: c spring_step_eq [OF assms(1) xy])
qed

lemma length_grid_particles:
  "0 \<le> gridWidth s \<Longrightarrow> 0 \<le> gridHeight s \<Longrightarrow>
     int (length (grid_particles s)) = gridWidth s * gridHeight s"
  by (simp add: grid_particles_def length_grid_cells)

lemma createClothGrid_eq:
  assumes "0 \<le> gridWidth s" "0 \<le> gridHeight s"
  shows "\<exists>vs idx. createClothGrid s =
           Inr (s\<lparr>particles := grid_particles s, springs := grid_springs s,
                  vertices := vs, indices := idx\<rparr>)"
proof -
  let ?s = "s\<lparr>particles := grid_particles s, springs := grid_springs s\<rparr>"
  have "grid_ok ?s" using assms length_grid_particles [OF assms] by (simp add: grid_ok_def)
  from updateVertexData_ok [OF this] obtain vs idx
    where "updateVertexData ?s = Inr (?s\<lparr>vertices := vs, indices := idx\<rparr>)" by blast
  moreover have "foldE (spring_step s (grid_particles s)) (grid_cells (gridWidth s) (gridHeight s)) []
        = Inr (grid_springs s)"
    using spring_loop_eq [OF length_grid_particles [OF assms] subset_refl, of "[]"]
    by (simp add: grid_springs_def)
  ultimately show ?thesis
    unfolding createClothGrid_def by (auto simp: Let_def grid_particles_def [symmetric])
qed

lemma length_filter_concat_map:
  "length (filter P (concat (map f xs))) = (\<Sum>x\<leftarrow>xs. length (filter P (f x)))"
  by (induction xs) simp_all

lemma sum_list_if_filter:
  "(\<Sum>x\<leftarrow>xs. if A x then 1 else 0) = length (filter A xs)"
  by (induction xs) simp_all

lemma filter_stype_spring_if:
  "length (filter (\<lambda>sp. stype sp = t') (spring_if c ps a b k t)) = (if c \<and> t = t' then 1 else 0)"
  by (simp add: spring_if_def spring_between_def Spring_ctor_def)

lemma count_cells_x: "0 \<le> k \<Longrightarrow> k \<le> w \<Longrightarrow>
    int (length (filter (\<lambda>(x, y). x < k) (grid_cells w h))) = k * int (nat h)"
  using length_filter_grid_cells [of "\<lambda>x. x < k" "\<lambda>_. True" w h]
  by (simp add: filter_less_upto)

lemma count_cells_y: "0 \<le> k \<Longrightarrow> k \<le> h \<Longrightarrow>
    int (length (filter (\<lambda>(x, y). y < k) (grid_cells w h))) = int (nat w) * k"
  using length_filter_grid_cells [of "\<lambda>_. True" "\<lambda>y. y < k" w h]
  by (simp add: filter_less_upto)

lemma count_cells_xy: "0 \<le> j \<Longrightarrow> j \<le> w \<Longrightarrow> 0 \<le> k \<Longrightarrow> k \<le> h \<Longrightarrow>
    int (length (filter (\<lambda>(x, y). x < j \<and> y < k) (grid_cells w h))) = j * k"
  using length_filter_grid_cells [of "\<lambda>x. x < j" "\<lambda>y. y < k" w h]
  by (simp add: filter_less_upto)

lemma count_cells_pos_y: "1 \<le> w \<Longrightarrow> 0 \<le> k \<Longrightarrow> k \<le> h \<Longrightarrow>
    int (length (filter (\<lambda>(x, y). 0 < x \<and> y < k) (grid_cells w h))) = (w - 1) * k"
  using length_filter_grid_cells [of "\<lambda>x. 0 < x" "\<lambda>y. y < k" w h]
  by (simp add: filter_less_upto filter_pos_upto)

lemma count_grid_springs:
  "length (filter (\<lambda>sp. stype sp = t) (grid_springs s)) =
     (\<Sum>c\<leftarrow>grid_cells (gridWidth s) (gridHeight s).
         length (filter (\<lambda>sp. stype sp = t) (cell_springs s (grid_particles s) c)))"
  by (simp add: grid_springs_def length_filter_concat_map)

lemma sum_list_add2: "(\<Sum>x\<leftarrow>xs. f x + g x) = (\<Sum>x\<leftarrow>xs. f x) + (\<Sum>x\<leftarrow>xs. (g x :: nat))"
  by (induction xs) simp_all

lemma structural_count:
  assumes "2 \<le> gridWidth s" "2 \<le> gridHeight s"
  shows "int (length (filter (\<lambda>sp. stype sp = STRUCTURAL) (grid_springs s))) =
           gridHeight s * (gridWidth s - 1) + gridWidth s * (gridHeight s - 1)"
proof -
  let ?W = "gridWidth s" and ?H = "gridHeight s"
  have "length (filter (\<lambda>sp. stype sp = STRUCTURAL) (cell_springs s (grid_particles s) c)) =
          (if (case c of (x, y) \<Rightarrow> x < ?W - 1) then 1 else 0) +
          (if (case c of (x, y) \<Rightarrow> y < ?H - 1) then 1 else 0)" for c
    by (cases c) (simp add: cell_springs_def Let_def filter_stype_spring_if)
  then have "length (filter (\<lambda>sp. stype sp = STRUCTURAL) (grid_springs s)) =
      length (filter (\<lambda>(x, y). x < ?W - 1) (grid_cells ?W ?H)) +
      length (filter (\<lambda>(x, y). y < ?H - 1) (grid_cells ?W ?H))"
    by (simp add: count_grid_springs sum_list_add2 sum_list_if_filter)
  moreover have "int (length (filter (\<lambda>(x, y). x < ?W - 1) (grid_cells ?W ?H))) = (?W - 1) * ?H"
    using assms count_cells_x [of "?W - 1" ?W ?H] by simp
  moreover have "int (length (filter (\<lambda>(x, y). y < ?H - 1) (grid_cells ?W ?H))) = ?W * (?H - 1)"
    using assms count_cells_y [of "?H - 1" ?H ?W] by simp
  ultimately show ?thesis by (simp only: of_nat_add mult.commute)
qed

lemma shear_count:
  assumes "2 \<le> gridWidth s" "2 \<le> gridHeight s"
  shows "int (length (filter (\<lambda>sp. stype sp = SHEAR) (grid_springs s))) =
           2 * (gridWidth s - 1) * (gridHeight s - 1)"
proof -
  let ?W = "gridWidth s" and ?H = "gridHeight s"
  have "length (filter (\<lambda>sp. stype sp = SHEAR) (cell_springs s (grid_particles s) c)) =
          (if (case c of (x, y) \<Rightarrow> x < ?W - 1 \<and> y < ?H - 1) then 1 else 0) +
          (if (case c of (x, y) \<Rightarrow> 0 < x \<and> y < ?H - 1) then 1 else 0)" for c
    by (cases c) (simp add: cell_springs_def Let_def filter_stype_spring_if)
  then have "length (filter (\<lambda>sp. stype sp = SHEAR) (grid_springs s)) =
      length (filter (\<lambda>(x, y). x < ?W - 1 \<and> y < ?H - 1) (grid_cells ?W ?H)) +
      length (filter (\<lambda>(x, y). 0 < x \<and> y < ?H - 1) (grid_cells ?W ?H))"
    by (simp add: count_grid_springs sum_list_add2 sum_list_if_filter)
  moreover have "int (length (filter (\<lambda>(x, y). x < ?W - 1 \<and> y < ?H - 1) (grid_cells ?W ?H))) =
      (?W - 1) * (?H - 1)"
    using assms count_cells_xy [of "?W - 1" ?W "?H - 1" ?H] by simp
  moreover have "int (length (filter (\<lambda>(x, y). 0 < x \<and> y < ?H - 1) (grid_cells ?W ?H))) =
      (?W - 1) * (?H - 1)"
    using assms count_cells_pos_y [of ?W "?H - 1" ?H] by simp
  ultimately show ?thesis by (simp only: of_nat_add)
qed

lemma bend_count:
  assumes "2 \<le> gridWidth s" "2 \<le> gridHeight s"
  shows "int (length (filter (\<lambda>sp. stype sp = BEND) (grid_springs s))) =
           gridHeight s * max (gridWidth s - 2) 0 + gridWidth s * max (gridHeight s - 2) 0"
proof -
  let ?W = "gridWidth s" and ?H = "gridHeight s"
  have "length (filter (\<lambda>sp. stype sp = BEND) (cell_springs s (grid_particles s) c)) =
          (if (case c of (x, y) \<Rightarrow> x < ?W - 2) then 1 else 0) +
          (if (case c of (x, y) \<Rightarrow> y < ?H - 2) then 1 else 0)" for c
    by (cases c) (simp add: cell_springs_def Let_def filter_stype_spring_if)
  then have "length (filter (\<lambda>sp. stype sp = BEND) (grid_springs s)) =
      length (filter (\<lambda>(x, y). x < ?W - 2) (grid_cells ?W ?H)) +
      length (filter (\<lambda>(x, y). y < ?H - 2) (grid_cells ?W ?H))"
    by (simp add: count_grid_springs sum_list_add2 sum_list_if_filter)
  moreover have "int (length (filter (\<lambda>(x, y). x < ?W - 2) (grid_cells ?W ?H))) = (?W - 2) * ?H"
    using assms count_cells_x [of "?W - 2" ?W ?H] by simp
  moreover have "int (length (filter (\<lambda>(x, y). y < ?H - 2) (grid_cells ?W ?H))) = ?W * (?H - 2)"
    using assms count_cells_y [of "?H - 2" ?H ?W] by simp
  moreover have "max (?W - 2) 0 = ?W - 2" "max (?H - 2) 0 = ?H - 2" using assms by simp_all
  ultimately show ?thesis by (simp only: of_nat_add mult.commute)
qed

lemma stype_cases_count:
  "length sps = length (filter (\<lambda>sp. stype sp = STRUCTURAL) sps) +
     length (filter (\<lambda>sp. stype sp = SHEAR) sps) + length (filter (\<lambda>sp. stype sp = BEND) sps)"
proof (induction sps)
  case Nil
  then show ?case by simp
next
  case (Cons sp sps)
  then show ?case by (cases "stype sp") simp_all
qed

lemma normal_step_mesh [simp]:
  "normal_step (s\<lparr>vertices := v, indices := i\<rparr>) = normal_step s"
  by (simp add: normal_step_def fun_eq_iff Let_def cong: if_cong split: prod.splits)

lemma calculateNormal_mesh [simp]:
  "calculateNormal (s\<lparr>vertices := v, indices := i\<rparr>) = calculateNormal s"
  by (simp add: calculateNormal_def fun_eq_iff cong: if_cong)

lemma vertex_step_mesh [simp]:
  "vertex_step (s\<lparr>vertices := v, indices := i\<rparr>) = vertex_step s"
  by (simp add: vertex_step_def fun_eq_iff Let_def cong: if_cong split: prod.splits)

lemma quad_step_mesh [simp]:
  "quad_step (s\<lparr>vertices := v, indices := i\<rparr>) = quad_step s"
  by (simp add: quad_step_def fun_eq_iff Let_def cong: if_cong split: prod.splits)

lemma updateVertexData_mesh:
  "updateVertexData (s\<lparr>vertices := v, indices := i\<rparr>) = updateVertexData s"
  by (simp add: updateVertexData_def bindE_def split: sum.splits prod.splits)

lemma updateVertexData_fields:
  assumes "updateVertexData s = Inr s'"
  shows "\<exists>vs idx. s' = s\<lparr>vertices := vs, indices := idx\<rparr>"
  using assms
  by (auto simp: updateVertexData_def bindE_eq_Inr split: if_splits)

lemma make_particle_grid [simp]:
  "make_particle (s\<lparr>particles := p, springs := q, vertices := v, indices := i\<rparr>) = make_particle s"
  by (simp add: make_particle_def fun_eq_iff Let_def cong: if_cong split: prod.splits)

lemma spring_step_grid [simp]:
  "spring_step (s\<lparr>particles := p, springs := q, vertices := v, indices := i\<rparr>) = spring_step s"
  by (simp add: spring_step_def fun_eq_iff Let_def cong: if_cong split: prod.splits)

lemma createClothGrid_rebuilds:
  "createClothGrid (s\<lparr>particles := p, springs := q, vertices := v, indices := i\<rparr>) = createClothGrid s"
proof -
  have "updateVertexData (s\<lparr>vertices := v, indices := i, particles := ps, springs := sps\<rparr>) =
        updateVertexData (s\<lparr>particles := ps, springs := sps\<rparr>)" for ps sps
  proof -
    have "s\<lparr>vertices := v, indices := i, particles := ps, springs := sps\<rparr> =
          (s\<lparr>particles := ps, springs := sps\<rparr>)\<lparr>vertices := v, indices := i\<rparr>"
      by simp
    then show ?thesis by (simp only: updateVertexData_mesh)
  qed
  then show ?thesis
    by (simp add: createClothGrid_def Let_def)
qed

lemma add_spring_sactive:
  assumes "add_spring c ps a b k t sps = Inr sps'" "\<forall>sp\<in>set sps. sactive sp"
  shows "\<forall>sp\<in>set sps'. sactive sp"
  using assms by (auto simp: add_spring_def bindE_eq_Inr Spring_ctor_def split: if_splits)

lemma spring_step_sactive:
  assumes "spring_step s ps c sps = Inr sps'" and a0: "\<forall>sp\<in>set sps. sactive sp"
  shows "\<forall>sp\<in>set sps'. sactive sp"
proof -
  obtain x y where c: "c = (x, y)" by (cases c)
  let ?W = "gridWidth s" and ?H = "gridHeight s"
  from assms(1) obtain s1 s2 s3 s4 s5 where
    1: "add_spring (x < ?W - 1) ps (y * ?W + x) (y * ?W + (x + 1)) 0.7 STRUCTURAL sps = Inr s1" and
    2: "add_spring (y < ?H - 1) ps (y * ?W + x) ((y + 1) * ?W + x) 0.7 STRUCTURAL s1 = Inr s2" and
    3: "add_spring (x < ?W - 1 \<and> y < ?H - 1) ps (y * ?W + x) ((y + 1) * ?W + (x + 1)) 0.3 SHEAR s2 = Inr s3" and
    4: "add_spring (x > 0 \<and> y < ?H - 1) ps (y * ?W + x) ((y + 1) * ?W + (x - 1)) 0.3 SHEAR s3 = Inr s4" and
    5: "add_spring (x < ?W - 2) ps (y * ?W + x) (y * ?W + (x + 2)) 0.15 BEND s4 = Inr s5" and
    6: "add_spring (y < ?H - 2) ps (y * ?W + x) ((y + 2) * ?W + x) 0.15 BEND s5 = Inr sps'"
    unfolding c spring_step_def Let_def prod.case bindE_eq_Inr by (elim exE conjE)
  have a1: "\<forall>sp\<in>set s1. sactive sp" by (rule add_spring_sactive [OF 1 a0])
  have a2: "\<forall>sp\<in>set s2. sactive sp" by (rule add_spring_sactive [OF 2 a1])
  have a3: "\<forall>sp\<in>set s3. sactive sp" by (rule add_spring_sactive [OF 3 a2])
  have a4: "\<forall>sp\<in>set s4. sactive sp" by (rule add_spring_sactive [OF 4 a3])
  have a5: "\<forall>sp\<in>set s5. sactive sp" by (rule add_spring_sactive [OF 5 a4])
  show ?thesis by (rule add_spring_sactive [OF 6 a5])
qed

lemma createClothGrid_result:
  assumes "createClothGrid s = Inr s'"
  shows "\<exists>sps vs idx. s' = s\<lparr>particles := grid_particles s, springs := sps, vertices := vs, indices := idx\<rparr>
           \<and> (\<forall>sp\<in>set sps. sactive sp)"
proof -
  from assms obtain sps where
    f: "foldE (spring_step s (grid_particles s)) (grid_cells (gridWidth s) (gridHeight s)) [] = Inr sps"
    and u: "updateVertexData (s\<lparr>particles := grid_particles s, springs := sps\<rparr>) = Inr s'"
    by (auto simp: createClothGrid_def Let_def bindE_eq_Inr grid_particles_def)
  have "\<forall>sp\<in>set sps. sactive sp"
    by (rule foldE_inv [OF f, where P = "\<lambda>l. \<forall>sp\<in>set l. sactive sp"])
       (use spring_step_sactive in auto)
  with updateVertexData_fields [OF u] show ?thesis by auto
qed

lemma grid_particles_active: "p \<in> set (grid_particles s) \<Longrightarrow> active p"
  by (auto simp: grid_particles_def make_particle_def Particle_ctor_def Let_def)

lemma grid_cells_empty: "w \<le> 0 \<or> h \<le> 0 \<Longrightarrow> grid_cells w h = []"
  by (auto simp: grid_cells_def)

lemma createClothGrid_total:
  assumes "0 \<le> gridWidth s * gridHeight s"
  shows "\<exists>s'. createClothGrid s = Inr s'"
proof (cases "0 \<le> gridWidth s \<and> 0 \<le> gridHeight s")
  case True
  then show ?thesis using createClothGrid_eq [of s] by blast
next
  case False
  then have e: "grid_cells (gridWidth s) (gridHeight s) = []"
    "grid_cells (gridWidth s - 1) (gridHeight s - 1) = []"
    by (auto intro!: grid_cells_empty)
  show ?thesis
    using assms by (simp add: createClothGrid_def updateVertexData_def e)
qed

lemma vlength_vsub: "vlength (vsub b a) = euclidean_distance a b"
  by (simp add: vlength_def vsub_def dot_def euclidean_distance_def power2_eq_square algebra_simps)

lemma cell_springs_stress_free:
  assumes len: "int (length ps) = gridWidth s * gridHeight s"
    and xy: "0 \<le> x" "x < gridWidth s" "0 \<le> y" "y < gridHeight s"
    and sp: "sp \<in> set (cell_springs s ps (x, y))"
  shows "0 \<le> particle1 sp \<and> particle1 sp < int (length ps) \<and>
         0 \<le> particle2 sp \<and> particle2 sp < int (length ps) \<and>
         restLength sp = euclidean_distance (position (ps ! nat (particle1 sp)))
                                            (position (ps ! nat (particle2 sp)))"
proof -
  let ?W = "gridWidth s" and ?H = "gridHeight s"
  have r: "0 \<le> y' * ?W + x' \<and> y' * ?W + x' < int (length ps)"
    if "0 \<le> x'" "x' < ?W" "0 \<le> y'" "y' < ?H" for x' y'
    using in_grid_index [OF that] len by simp
  have g: "0 \<le> particle1 q \<and> particle1 q < int (length ps) \<and>
         0 \<le> particle2 q \<and> particle2 q < int (length ps) \<and>
         restLength q = euclidean_distance (position (ps ! nat (particle1 q)))
                                            (position (ps ! nat (particle2 q)))"
    if "q \<in> set (spring_if c ps (y * ?W + x) (y' * ?W + x') k t)"
      and "c \<Longrightarrow> 0 \<le> x' \<and> x' < ?W \<and> 0 \<le> y' \<and> y' < ?H" for q c x' y' k t
  proof -
    from that(1) have c: c and q: "q = spring_between ps (y * ?W + x) (y' * ?W + x') k t"
      by (auto simp: spring_if_def split: if_splits)
    from that(2) [OF c] r [of x' y'] r [of x y] xy show ?thesis
      by (simp add: q spring_between_def Spring_ctor_def vlength_vsub)
  qed
  from sp consider
      "sp \<in> set (spring_if (x < ?W - 1) ps (y * ?W + x) (y * ?W + (x + 1)) 0.7 STRUCTURAL)"
    | "sp \<in> set (spring_if (y < ?H - 1) ps (y * ?W + x) ((y + 1) * ?W + x) 0.7 STRUCTURAL)"
    | "sp \<in> set (spring_if (x < ?W - 1 \<and> y < ?H - 1) ps (y * ?W + x) ((y + 1) * ?W + (x + 1)) 0.3 SHEAR)"
    | "sp \<in> set (spring_if (x > 0 \<and> y < ?H - 1) ps (y * ?W + x) ((y + 1) * ?W + (x - 1)) 0.3 SHEAR)"
    | "sp \<in> set (spring_if (x < ?W - 2) ps (y * ?W + x) (y * ?W + (x + 2)) 0.15 BEND)"
    | "sp \<in> set (spring_if (y < ?H - 2) ps (y * ?W + x) ((y + 2) * ?W + x) 0.15 BEND)"
    unfolding cell_springs_def Let_def prod.case set_append by blast
  then show ?thesis
  proof cases
    case 1 then show ?thesis by (rule g) (use xy in auto)
  next
    case 2 then show ?thesis by (rule g) (use xy in auto)
  next
    case 3 then show ?thesis by (rule g) (use xy in auto)
  next
    case 4 then show ?thesis by (rule g) (use xy in auto)
  next
    case 5 then show ?thesis by (rule g) (use xy in auto)
  next
    case 6 then show ?thesis by (rule g) (use xy in auto)
  qed
qed

lemma createClothGrid_stress_free:
  assumes "0 \<le> gridWidth s" "0 \<le> gridHeight s"
  shows "\<exists>s'. createClothGrid s = Inr s' \<and> stress_free s'"
proof -
  from createClothGrid_eq [OF assms] obtain vs idx where
    e: "createClothGrid s = Inr (s\<lparr>particles := grid_particles s, springs := grid_springs s,
                  vertices := vs, indices := idx\<rparr>)" by blast
  have "0 \<le> particle1 sp \<and> particle1 sp < int (length (grid_particles s)) \<and>
        0 \<le> particle2 sp \<and> particle2 sp < int (length (grid_particles s)) \<and>
        restLength sp = euclidean_distance (position (grid_particles s ! nat (particle1 sp)))
                                           (position (grid_particles s ! nat (particle2 sp)))"
    if "sp \<in> set (grid_springs s)" for sp
  proof -
    from that obtain x y where c: "(x, y) \<in> set (grid_cells (gridWidth s) (gridHeight s))"
      and sp: "sp \<in> set (cell_springs s (grid_particles s) (x, y))"
      by (auto simp: grid_springs_def)
    from c have xy: "0 \<le> x" "x < gridWidth s" "0 \<le> y" "y < gridHeight s"
      by (auto simp: set_grid_cells)
    show ?thesis
      by (rule cell_springs_stress_free [OF length_grid_particles [OF assms] xy sp])
  qed
  then show ?thesis unfolding e stress_free_def by simp
qed

lemma createClothGrid_counts:
  assumes "2 \<le> gridWidth s" "2 \<le> gridHeight s"
  shows "\<exists>s'. createClothGrid s = Inr s' \<and> grid_counts (gridWidth s) (gridHeight s) s'"
proof -
  have nn: "0 \<le> gridWidth s" "0 \<le> gridHeight s" using assms by simp_all
  from createClothGrid_eq [OF nn] obtain vs idx where
    e: "createClothGrid s = Inr (s\<lparr>particles := grid_particles s, springs := grid_springs s,
                  vertices := vs, indices := idx\<rparr>)" by blast
  show ?thesis
    unfolding e grid_counts_def spring_count_def
    using length_grid_particles [OF nn] structural_count [OF assms] shear_count [OF assms]
      bend_count [OF assms] stype_cases_count [of "grid_springs s"]
    by simp
qed

lemma ctor_eq: "ClothSystem_ctor W H w h st = createClothGrid (initial_system W H w h st)"
  by (simp add: ClothSystem_ctor_def initial_system_def)

text \<open>
  Claim C5. For a grid of width \<open>W \<ge> 2\<close> and height \<open>H \<ge> 2\<close> the constructor, and
  \<^verbatim>\<open>reset()\<close> on any object with these dimensions, return with \<open>W * H\<close> particles,
  \<open>H * (W - 1) + W * (H - 1)\<close> structural springs, \<open>2 * (W - 1) * (H - 1)\<close> shear springs,
  \<open>H * max (W - 2) 0 + W * max (H - 2) 0\<close> bend springs, and no spring of another kind.
\<close>

theorem grid_counts_after_build:
  assumes "2 \<le> W" "2 \<le> H" "gridWidth s0 = W" "gridHeight s0 = H"
  shows "(\<exists>s. ClothSystem_ctor W H w h st = Inr s \<and> grid_counts W H s) \<and>
         (\<exists>s. reset s0 = Inr s \<and> grid_counts W H s)"
  using createClothGrid_counts [of "initial_system W H w h st"] createClothGrid_counts [of s0] assms
  by (simp add: ctor_eq reset_def initial_system_def)

theorem grid_counts_after_build_witness:
  "(\<exists>s. ClothSystem_ctor 2 3 4 4 (initial_statics (\<lambda>n. 0)) = Inr s \<and> grid_counts 2 3 s) \<and>
   (\<exists>s. reset (initial_system 2 3 4 4 (initial_statics (\<lambda>n. 0))) = Inr s \<and> grid_counts 2 3 s)"
  using grid_counts_after_build [of 2 3 "initial_system 2 3 4 4 (initial_statics (\<lambda>n. 0))" 4 4
      "initial_statics (\<lambda>n. 0)"]
  by (simp add: initial_system_def)

text \<open>
  Claim C6. Right after construction, and after \<^verbatim>\<open>reset()\<close>, the rest length of every
  spring is the Euclidean distance between the positions of its two end particles (for the
  grids of the specification, \<open>W \<ge> 2\<close> and \<open>H \<ge> 2\<close>, where no coordinate is a
  quotient by zero).
\<close>

theorem rest_lengths_after_build:
  assumes "2 \<le> W" "2 \<le> H" "gridWidth s0 = W" "gridHeight s0 = H"
  shows "(\<exists>s. ClothSystem_ctor W H w h st = Inr s \<and> stress_free s) \<and>
         (\<exists>s. reset s0 = Inr s \<and> stress_free s)"
  using createClothGrid_stress_free [of "initial_system W H w h st"] createClothGrid_stress_free [of s0] assms
  by (simp add: ctor_eq reset_def initial_system_def)

theorem rest_lengths_after_build_witness:
  "(\<exists>s. ClothSystem_ctor 2 2 3 4 (initial_statics (\<lambda>n. 0)) = Inr s \<and> stress_free s) \<and>
   (\<exists>s. reset (initial_system 2 2 3 4 (initial_statics (\<lambda>n. 0))) = Inr s \<and> stress_free s)"
  using rest_lengths_after_build [of 2 2 "initial_system 2 2 3 4 (initial_statics (\<lambda>n. 0))" 3 4
      "initial_statics (\<lambda>n. 0)"]
  by (simp add: initial_system_def)

text \<open>
  Claim C3, as amended. The constructor does not validate the grid dimensions: for every
  width and height that are not negative, those below 2 included, it returns an object
  with these dimensions and \<open>width * height\<close> particles.
\<close>

theorem ctor_accepts_any_grid:
  assumes "0 \<le> W" "0 \<le> H"
  shows "\<exists>s. ClothSystem_ctor W H w h st = Inr s \<and> gridWidth s = W \<and> gridHeight s = H \<and>
             int (length (particles s)) = W * H"
proof -
  let ?s = "initial_system W H w h st"
  have nn: "0 \<le> gridWidth ?s" "0 \<le> gridHeight ?s" using assms by (simp_all add: initial_system_def)
  from createClothGrid_eq [OF nn] length_grid_particles [OF nn] show ?thesis
    by (auto simp: ctor_eq initial_system_def)
qed

theorem ctor_accepts_any_grid_witness:
  "\<exists>s. ClothSystem_ctor 1 3 4 4 (initial_statics (\<lambda>n. 0)) = Inr s \<and>
       gridWidth s = 1 \<and> gridHeight s = 3 \<and> int (length (particles s)) = 1 * 3"
  using ctor_accepts_any_grid [of 1 3 4 4 "initial_statics (\<lambda>n. 0)"] by simp

text \<open>
  Claim C3 as stated fails: a 1 by 1 grid is not rejected, the constructor returns an
  object with one particle.
\<close>

theorem ctor_small_grid_not_rejected:
  "\<not> isl (ClothSystem_ctor 1 1 4 4 (initial_statics (\<lambda>n. 0))) \<and>
   length (particles (projr (ClothSystem_ctor 1 1 4 4 (initial_statics (\<lambda>n. 0))))) = 1"
proof -
  let ?s = "initial_system 1 1 4 4 (initial_statics (\<lambda>n. 0))"
  have nn: "0 \<le> gridWidth ?s" "0 \<le> gridHeight ?s" by (simp_all add: initial_system_def)
  from createClothGrid_eq [OF nn] length_grid_particles [OF nn] show ?thesis
    by (auto simp: ctor_eq initial_system_def)
qed

section \<open>Invariants of the operations\<close>

lemma list_all2_refl_on: "(\<And>x. R x x) \<Longrightarrow> list_all2 R xs xs"
  by (simp add: list_all2_refl)

lemma list_all2_update_right:
  assumes "list_all2 R xs ys" "i < length xs \<longrightarrow> R (xs ! i) v"
  shows "list_all2 R xs (ys[i := v])"
  using assms by (cases "i < length ys") (auto simp: list_all2_conv_all_nth nth_list_update)

lemma applyForces_loop_rel:
  assumes "\<And>st p. R p (fst (applyForces_particle t st p))"
  shows "list_all2 R ps (fst (applyForces_loop t ps st))"
proof (induction ps arbitrary: st)
  case Nil
  then show ?case by simp
next
  case (Cons p ps)
  obtain p' st1 where a: "applyForces_particle t st p = (p', st1)" by (cases "applyForces_particle t st p")
  obtain ps' st2 where b: "applyForces_loop t ps st1 = (ps', st2)" by (cases "applyForces_loop t ps st1")
  from assms [of p st] a have "R p p'" by simp
  moreover from Cons.IH [of st1] b have "list_all2 R ps ps'" by simp
  ultimately show ?case by (simp add: a b)
qed

lemma applyForces_rel:
  assumes "\<And>st p. R p (fst (applyForces_particle t st p))"
  shows "list_all2 R (particles t) (particles (applyForces t))"
proof -
  obtain ps st where e: "applyForces_loop t (particles t) (statics t) = (ps, st)"
    by (cases "applyForces_loop t (particles t) (statics t)")
  from applyForces_loop_rel [of R t "particles t" "statics t", OF assms] e
  show ?thesis by (simp add: applyForces_def)
qed

lemma applyForces_frame:
  "springs (applyForces t) = springs t" "gridWidth (applyForces t) = gridWidth t"
  "gridHeight (applyForces t) = gridHeight t" "spheres (applyForces t) = spheres t"
  "elapsedTime (applyForces t) = elapsedTime t"
  "clothWidth (applyForces t) = clothWidth t" "clothHeight (applyForces t) = clothHeight t"
  by (simp_all add: applyForces_def split: prod.splits)

lemma integrateVerlet_rel:
  assumes "\<And>p. R p (integrate_particle t d p)"
  shows "list_all2 R (particles t) (particles (integrateVerlet t d))"
  using assms by (simp add: integrateVerlet_def list_all2_conv_all_nth)

lemma handleCollisions_rel:
  assumes "\<And>p. R p (collide_particle t p)"
  shows "list_all2 R (particles t) (particles (handleCollisions t))"
  using assms by (simp add: handleCollisions_def list_all2_conv_all_nth)

lemma constraint_step_cases:
  assumes "constraint_step i t = Inr t'"
  obtains (skip) "t' = t"
  | (tear) "t' = t\<lparr>springs := (springs t)[i := (springs t ! i)\<lparr>sactive := False\<rparr>]\<rparr>"
  | (move) ps where "t' = t\<lparr>particles := ps\<rparr>" "length ps = length (particles t)"
      "\<And>j. j < length ps \<Longrightarrow> ps ! j = particles t ! j \<or>
          (\<not> pinned (particles t ! j) \<and> (\<exists>v. ps ! j = (particles t ! j)\<lparr>position := v\<rparr>))"
proof -
  let ?sp = "springs t ! i"
  show ?thesis
  proof (cases "sactive ?sp")
    case False
    with assms have "t' = t" by (simp add: constraint_step_def)
    then show ?thesis by (rule skip)
  next
    case act: True
    with assms obtain p1 p2 where p1: "elemAt (particles t) (particle1 ?sp) = Inr p1"
      and p2: "elemAt (particles t) (particle2 ?sp) = Inr p2"
      by (auto simp: constraint_step_def Let_def bindE_eq_Inr)
    from p1 have i1: "0 \<le> particle1 ?sp" "nat (particle1 ?sp) < length (particles t)"
      and e1: "p1 = particles t ! nat (particle1 ?sp)"
      by (auto simp: elemAt_def split: if_splits)
    from p2 have i2: "0 \<le> particle2 ?sp" "nat (particle2 ?sp) < length (particles t)"
      and e2: "p2 = particles t ! nat (particle2 ?sp)"
      by (auto simp: elemAt_def split: if_splits)
    let ?d = "vlength (vsub (position p2) (position p1))"
    show ?thesis
    proof (cases "\<not> active p1 \<or> \<not> active p2 \<or> ?d < 1 / 1000000")
      case True
      with assms act p1 p2 have "t' = t" by (auto simp: constraint_step_def Let_def split: if_splits)
      then show ?thesis by (rule skip)
    next
      case go: False
      from assms act p1 p2 go obtain torn where torn: "checkTearing t ?sp = Inr torn"
        by (auto simp: constraint_step_def Let_def bindE_eq_Inr)
      show ?thesis
      proof (cases torn)
        case True
        with assms act p1 p2 go torn
        have "t' = t\<lparr>springs := (springs t)[i := ?sp\<lparr>sactive := False\<rparr>]\<rparr>"
          by (auto simp: constraint_step_def Let_def)
        then show ?thesis by (rule tear)
      next
        case False
        define n1 where "n1 = nat (particle1 ?sp)"
        define n2 where "n2 = nat (particle2 ?sp)"
        define tr where "tr = vscale (vscale (vsub (position p2) (position p1))
                                       ((restLength ?sp - ?d) / ?d)) (stiffness ?sp)"
        define q1 where "q1 = p1\<lparr>position := vsub (position p1) (vscale tr (mass p2 / (mass p1 + mass p2)))\<rparr>"
        define q2 where "q2 = p2\<lparr>position := vadd (position p2) (vscale tr (mass p1 / (mass p1 + mass p2)))\<rparr>"
        define ps1 where "ps1 = (if \<not> pinned p1 then (particles t)[n1 := q1] else particles t)"
        define ps2 where "ps2 = (if \<not> pinned p2 then ps1[n2 := q2] else ps1)"
        from assms act p1 p2 go torn False have t': "t' = t\<lparr>particles := ps2\<rparr>"
          by (auto simp: constraint_step_def Let_def ps2_def ps1_def q1_def q2_def tr_def n1_def n2_def)
        have len: "length ps2 = length (particles t)" by (simp add: ps2_def ps1_def)
        have el: "ps2 ! j = particles t ! j \<or>
          (\<not> pinned (particles t ! j) \<and> (\<exists>v. ps2 ! j = (particles t ! j)\<lparr>position := v\<rparr>))"
          if j: "j < length ps2" for j
        proof -
          have 1: "ps1 ! j = particles t ! j \<or>
            (\<not> pinned (particles t ! j) \<and> (\<exists>v. ps1 ! j = (particles t ! j)\<lparr>position := v\<rparr>))"
          proof (cases "\<not> pinned p1 \<and> j = n1")
            case True
            then have "ps1 ! j = q1" using i1 by (simp add: ps1_def n1_def)
            with True show ?thesis unfolding q1_def e1 n1_def by blast
          next
            case False
            then have "ps1 ! j = particles t ! j" by (auto simp: ps1_def)
            then show ?thesis by simp
          qed
          show ?thesis
          proof (cases "\<not> pinned p2 \<and> j = n2")
            case True
            then have "ps2 ! j = q2" using i2 by (simp add: ps2_def ps1_def n2_def)
            with True show ?thesis unfolding q2_def e2 n2_def by blast
          next
            case False
            then have "ps2 ! j = ps1 ! j" by (auto simp: ps2_def)
            with 1 show ?thesis by simp
          qed
        qed
        show ?thesis by (rule move [OF t' len el])
      qed
    qed
  qed
qed

lemma constraint_step_rel:
  assumes "constraint_step i t = Inr t'"
    and refl: "\<And>p. R p p"
    and cs: "\<And>p v. \<not> pinned p \<Longrightarrow> R p (p\<lparr>position := v\<rparr>)"
  shows "list_all2 R (particles t) (particles t')"
  using assms(1)
proof (cases rule: constraint_step_cases)
  case skip
  then show ?thesis using refl by (simp add: list_all2_refl)
next
  case tear
  then show ?thesis using refl by (simp add: list_all2_refl)
next
  case (move ps)
  have "R (particles t ! j) (ps ! j)" if "j < length ps" for j
    using move(3) [OF that] refl cs by auto
  then show ?thesis using move(1,2) by (simp add: list_all2_conv_all_nth)
qed

lemma constraint_step_springs:
  assumes "constraint_step i t = Inr t'" "i < length (springs t)"
  shows "list_all2 torn_or_same (springs t) (springs t')"
  using assms(1)
proof (cases rule: constraint_step_cases)
  case tear
  have "list_all2 torn_or_same (springs t) ((springs t)[i := (springs t ! i)\<lparr>sactive := False\<rparr>])"
    by (rule list_all2_update_right) (simp_all add: list_all2_refl torn_or_same_def)
  then show ?thesis by (simp add: tear)
qed (simp_all add: list_all2_refl torn_or_same_def)

lemma constraint_step_frame:
  assumes "constraint_step i t = Inr t'"
  shows "gridWidth t' = gridWidth t" "gridHeight t' = gridHeight t" "spheres t' = spheres t"
    "statics t' = statics t" "clothWidth t' = clothWidth t" "clothHeight t' = clothHeight t"
  using assms by (cases rule: constraint_step_cases; simp)+

lemma torn_or_same_trans: "torn_or_same a b \<Longrightarrow> torn_or_same b c \<Longrightarrow> torn_or_same a c"
  by (auto simp: torn_or_same_def)

lemma evolves_refl: "motion_rel R \<Longrightarrow> evolves R s s"
  by (simp add: evolves_def motion_rel_def list_all2_refl torn_or_same_def same_frame_def)

lemma evolves_trans:
  assumes "motion_rel R" "evolves R s t" "evolves R t u"
  shows "evolves R s u"
proof -
  have tr: "R p q \<Longrightarrow> R q r \<Longrightarrow> R p r" for p q r
    using assms(1) unfolding motion_rel_def by blast
  have "list_all2 R (particles s) (particles u)"
    by (rule list_all2_trans [of R R R "particles s" "particles t" "particles u"])
       (use assms(2,3) tr in \<open>auto simp: evolves_def\<close>)
  moreover have "list_all2 torn_or_same (springs s) (springs u)"
    by (rule list_all2_trans [of torn_or_same torn_or_same torn_or_same "springs s" "springs t" "springs u"])
       (use assms(2,3) torn_or_same_trans in \<open>auto simp: evolves_def\<close>)
  ultimately show ?thesis using assms(2,3) by (simp add: evolves_def same_frame_def)
qed

lemma evolves_particles_only:
  assumes "list_all2 R (particles s) (particles t)" "springs t = springs s" "same_frame s t"
  shows "evolves R s t"
  using assms by (simp add: evolves_def list_all2_refl torn_or_same_def)

lemma applyForces_evolves: "motion_rel R \<Longrightarrow> evolves R t (applyForces t)"
  by (rule evolves_particles_only)
     (auto simp: applyForces_frame same_frame_def motion_rel_def intro: applyForces_rel)

lemma integrateVerlet_evolves: "motion_rel R \<Longrightarrow> evolves R t (integrateVerlet t d)"
  by (rule evolves_particles_only)
     (auto simp: motion_rel_def same_frame_def integrateVerlet_def list_all2_conv_all_nth)

lemma handleCollisions_evolves: "collision_rel R \<Longrightarrow> evolves R t (handleCollisions t)"
  by (rule evolves_particles_only)
     (auto simp: collision_rel_def same_frame_def handleCollisions_def list_all2_conv_all_nth)

lemma constraint_step_evolves:
  assumes "constraint_step i t = Inr t'" "i < length (springs t)" "motion_rel R"
  shows "evolves R t t'"
  unfolding evolves_def
  using constraint_step_rel [OF assms(1), of R] constraint_step_springs [OF assms(1,2)]
    constraint_step_frame [OF assms(1)] assms(3)
  by (simp add: motion_rel_def same_frame_def)

lemma evolves_length_springs: "evolves R s t \<Longrightarrow> length (springs t) = length (springs s)"
  by (auto simp: evolves_def dest: list_all2_lengthD)

lemma satisfyConstraints_evolves:
  assumes "satisfyConstraints t = Inr t'" "motion_rel R"
  shows "evolves R t t'"
  using assms(1) unfolding satisfyConstraints_def
proof (rule foldE_inv [where P = "\<lambda>c. evolves R t c"])
  show "evolves R t t" by (rule evolves_refl [OF assms(2)])
next
  fix i c c'
  assume i: "i \<in> set [0..<length (springs t)]" and c: "evolves R t c" and st: "constraint_step i c = Inr c'"
  from i c have "i < length (springs c)" by (simp add: evolves_length_springs)
  from constraint_step_evolves [OF st this assms(2)] c show "evolves R t c'"
    by (rule evolves_trans [OF assms(2), rotated])
qed

lemma constraints_loop_evolves:
  assumes "foldE (\<lambda>i. satisfyConstraints) ns t = Inr t'" "motion_rel R"
  shows "evolves R t t'"
  using assms(1)
proof (rule foldE_inv [where P = "\<lambda>c. evolves R t c"])
  show "evolves R t t" by (rule evolves_refl [OF assms(2)])
next
  fix i c c'
  assume "evolves R t c" "satisfyConstraints c = Inr c'"
  then show "evolves R t c'"
    using satisfyConstraints_evolves [OF _ assms(2)] evolves_trans [OF assms(2)] by blast
qed

text \<open>The state of one pass of the loop right before its collision stage.\<close>

lemma physics_step_split:
  assumes "physics_step s = Inr s'"
  obtains t where "foldE (\<lambda>i. satisfyConstraints) [0 ..< 3] (integrateVerlet (applyForces s) fixedTimeStep) = Inr t"
    and "s' = handleCollisions t"
  using assms by (auto simp: physics_step_def bindE_eq_Inr)

lemma before_collisions_evolves:
  assumes "foldE (\<lambda>i. satisfyConstraints) ns (integrateVerlet (applyForces s) d) = Inr t" "motion_rel R"
  shows "evolves R s t"
  using applyForces_evolves [OF assms(2), of s]
    integrateVerlet_evolves [OF assms(2), of "applyForces s" d]
    constraints_loop_evolves [OF assms]
    evolves_trans [OF assms(2)]
  by blast

lemma physics_step_evolves:
  assumes "physics_step s = Inr s'" "motion_rel R" "collision_rel R"
  shows "evolves R s s'"
proof -
  from assms(1) obtain t where t: "foldE (\<lambda>i. satisfyConstraints) [0 ..< 3] (integrateVerlet (applyForces s) fixedTimeStep) = Inr t"
    and s': "s' = handleCollisions t" by (rule physics_step_split)
  from before_collisions_evolves [OF t assms(2)] handleCollisions_evolves [OF assms(3), of t]
  show ?thesis unfolding s' by (rule evolves_trans [OF assms(2)])
qed

lemma evolves_frame_change:
  assumes "evolves R s t" "particles t' = particles t" "springs t' = springs t" "same_frame t t'"
  shows "evolves R s t'"
  using assms by (simp add: evolves_def same_frame_def)

lemma physics_loop_evolves:
  assumes "physics_loop s = Inr s'" "motion_rel R" "collision_rel R"
  shows "evolves R s s'"
  using assms(1)
proof (induction s rule: physics_loop.induct)
  case (1 s)
  show ?case
  proof (cases "elapsedTime s \<ge> fixedTimeStep")
    case False
    with "1.prems" have "s' = s" by (simp add: physics_loop.simps [of s])
    then show ?thesis by (simp add: evolves_refl [OF assms(2)])
  next
    case True
    with "1.prems" obtain t where t: "physics_step s = Inr t"
      and l: "physics_loop (t\<lparr>elapsedTime := elapsedTime t - fixedTimeStep\<rparr>) = Inr s'"
      by (auto simp: physics_loop.simps [of s] split: sum.splits)
    have a: "evolves R s (t\<lparr>elapsedTime := elapsedTime t - fixedTimeStep\<rparr>)"
      by (rule evolves_frame_change [OF physics_step_evolves [OF t assms(2,3)]])
         (simp_all add: same_frame_def)
    from "1.IH" [OF True t l] have "evolves R (t\<lparr>elapsedTime := elapsedTime t - fixedTimeStep\<rparr>) s'" .
    with a show ?thesis by (rule evolves_trans [OF assms(2)])
  qed
qed

lemma updateObjectMovement_frame:
  "particles (updateObjectMovement s dt) = particles s"
  "springs (updateObjectMovement s dt) = springs s"
  "same_frame s (updateObjectMovement s dt)"
  by (simp_all add: updateObjectMovement_def Let_def same_frame_def)

lemma updateWindVariation_frame:
  "particles (updateWindVariation s dt) = particles s"
  "springs (updateWindVariation s dt) = springs s"
  "same_frame s (updateWindVariation s dt)"
  by (simp_all add: updateWindVariation_def Let_def same_frame_def)

lemma update_evolves:
  assumes "update s dt = Inr s'" "motion_rel R" "collision_rel R"
  shows "evolves R s s'"
proof -
  let ?s0 = "s\<lparr>elapsedTime := elapsedTime s + dt\<rparr>"
  from assms(1) obtain t where t: "physics_loop ?s0 = Inr t"
    and u: "updateVertexData (updateWindVariation (updateObjectMovement t dt) dt) = Inr s'"
    by (auto simp: update_def bindE_eq_Inr)
  have "evolves R s ?s0"
    by (rule evolves_frame_change [OF evolves_refl [OF assms(2)]]) (simp_all add: same_frame_def)
  with physics_loop_evolves [OF t assms(2,3)] have "evolves R s t"
    using evolves_trans [OF assms(2)] by blast
  moreover from updateVertexData_fields [OF u] obtain vs idx
    where "s' = (updateWindVariation (updateObjectMovement t dt) dt)\<lparr>vertices := vs, indices := idx\<rparr>"
    by blast
  ultimately show ?thesis
    using updateObjectMovement_frame [of t dt]
      updateWindVariation_frame [of "updateObjectMovement t dt" dt]
    by (simp add: evolves_def same_frame_def)
qed

lemma any_motion_rel: "motion_rel any_motion" "collision_rel any_motion"
  by (simp_all add: motion_rel_def collision_rel_def any_motion_def)

lemma evolves_springs_ok:
  assumes "evolves R s t" "springs_ok s"
  shows "springs_ok t"
proof -
  from assms(1) have len: "length (particles t) = length (particles s)"
    and sp: "list_all2 torn_or_same (springs s) (springs t)"
    by (auto simp: evolves_def dest: list_all2_lengthD)
  have "0 \<le> particle1 b \<and> particle1 b < int (length (particles s)) \<and>
        0 \<le> particle2 b \<and> particle2 b < int (length (particles s))"
    if "b \<in> set (springs t)" for b
  proof -
    from that obtain i where i: "i < length (springs t)" "b = springs t ! i"
      by (auto simp: in_set_conv_nth)
    with sp have "torn_or_same (springs s ! i) b" "springs s ! i \<in> set (springs s)"
      by (auto simp: list_all2_conv_all_nth)
    with assms(2) show ?thesis by (auto simp: springs_ok_def torn_or_same_def)
  qed
  then show ?thesis by (simp add: springs_ok_def len)
qed

lemma evolves_grid_ok: "evolves R s t \<Longrightarrow> grid_ok s \<Longrightarrow> grid_ok t"
  by (auto simp: evolves_def grid_ok_def same_frame_def dest: list_all2_lengthD)

lemma constraint_step_ok:
  assumes "springs_ok t" "i < length (springs t)"
  shows "\<exists>t'. constraint_step i t = Inr t'"
proof -
  let ?sp = "springs t ! i"
  from assms have r: "0 \<le> particle1 ?sp" "particle1 ?sp < int (length (particles t))"
    "0 \<le> particle2 ?sp" "particle2 ?sp < int (length (particles t))"
    by (auto simp: springs_ok_def)
  then have "\<exists>b. checkTearing t ?sp = Inr b"
    by (simp add: checkTearing_def elemAt_Inr Let_def)
  then obtain b where b: "checkTearing t ?sp = Inr b" ..
  show ?thesis
    unfolding constraint_step_def using r b by (simp add: elemAt_Inr Let_def)
qed

lemma satisfyConstraints_ok:
  assumes "springs_ok t"
  shows "\<exists>t'. satisfyConstraints t = Inr t'"
proof -
  have "\<exists>b. foldE constraint_step [0..<length (springs t)] t = Inr b \<and> evolves any_motion t b"
  proof (rule foldE_ok_inv)
    show "evolves any_motion t t" by (rule evolves_refl [OF any_motion_rel(1)])
  next
    fix i c
    assume i: "i \<in> set [0..<length (springs t)]" and c: "evolves any_motion t c"
    from i c have il: "i < length (springs c)" by (simp add: evolves_length_springs)
    from constraint_step_ok [OF evolves_springs_ok [OF c assms] il]
    obtain c' where c': "constraint_step i c = Inr c'" ..
    from constraint_step_evolves [OF c' il any_motion_rel(1)] c
    have "evolves any_motion t c'" by (rule evolves_trans [OF any_motion_rel(1), rotated])
    with c' show "\<exists>c'. constraint_step i c = Inr c' \<and> evolves any_motion t c'" by blast
  qed
  then show ?thesis by (auto simp: satisfyConstraints_def)
qed

lemma constraints_loop_ok:
  assumes "springs_ok t"
  shows "\<exists>t'. foldE (\<lambda>i. satisfyConstraints) ns t = Inr t'"
proof -
  have "\<exists>b. foldE (\<lambda>i. satisfyConstraints) ns t = Inr b \<and> evolves any_motion t b"
  proof (rule foldE_ok_inv)
    show "evolves any_motion t t" by (rule evolves_refl [OF any_motion_rel(1)])
  next
    fix i :: 'a and c
    assume c: "evolves any_motion t c"
    from satisfyConstraints_ok [OF evolves_springs_ok [OF c assms]]
    obtain c' where c': "satisfyConstraints c = Inr c'" ..
    from satisfyConstraints_evolves [OF c' any_motion_rel(1)] c
    have "evolves any_motion t c'" by (rule evolves_trans [OF any_motion_rel(1), rotated])
    with c' show "\<exists>c'. satisfyConstraints c = Inr c' \<and> evolves any_motion t c'" by blast
  qed
  then show ?thesis by blast
qed

lemma physics_step_ok:
  assumes "springs_ok s"
  shows "\<exists>s'. physics_step s = Inr s'"
proof -
  let ?t = "integrateVerlet (applyForces s) fixedTimeStep"
  have "evolves any_motion s ?t"
    using applyForces_evolves [OF any_motion_rel(1), of s]
      integrateVerlet_evolves [OF any_motion_rel(1), of "applyForces s" fixedTimeStep]
    by (rule evolves_trans [OF any_motion_rel(1)])
  from constraints_loop_ok [OF evolves_springs_ok [OF this assms], of "[0 ..< 3]"]
  show ?thesis by (auto simp: physics_step_def)
qed

lemma physics_loop_ok:
  assumes "springs_ok s"
  shows "\<exists>s'. physics_loop s = Inr s'"
  using assms
proof (induction s rule: physics_loop.induct)
  case (1 s)
  show ?case
  proof (cases "elapsedTime s \<ge> fixedTimeStep")
    case False
    then show ?thesis by (simp add: physics_loop.simps [of s])
  next
    case True
    from physics_step_ok [OF "1.prems"] obtain t where t: "physics_step s = Inr t" ..
    have "evolves any_motion s (t\<lparr>elapsedTime := elapsedTime t - fixedTimeStep\<rparr>)"
      by (rule evolves_frame_change [OF physics_step_evolves [OF t any_motion_rel]])
         (simp_all add: same_frame_def)
    from "1.IH" [OF True t evolves_springs_ok [OF this "1.prems"]]
    show ?thesis using True t by (simp add: physics_loop.simps [of s])
  qed
qed

lemma update_ok:
  assumes "springs_ok s" "grid_ok s"
  shows "\<exists>s'. update s dt = Inr s' \<and> springs_ok s' \<and> grid_ok s'"
proof -
  let ?s0 = "s\<lparr>elapsedTime := elapsedTime s + dt\<rparr>"
  have "springs_ok ?s0" using assms(1) by (simp add: springs_ok_def)
  from physics_loop_ok [OF this] obtain t where t: "physics_loop ?s0 = Inr t" ..
  let ?u = "updateWindVariation (updateObjectMovement t dt) dt"
  have "evolves any_motion ?s0 t" by (rule physics_loop_evolves [OF t any_motion_rel])
  then have "evolves any_motion s ?u"
    using updateObjectMovement_frame [of t dt]
      updateWindVariation_frame [of "updateObjectMovement t dt" dt]
    by (simp add: evolves_def same_frame_def)
  from evolves_grid_ok [OF this assms(2)] updateVertexData_ok [of ?u]
  obtain s' where s': "updateVertexData ?u = Inr s'" by blast
  with t have u: "update s dt = Inr s'" by (simp add: update_def)
  from update_evolves [OF u any_motion_rel] evolves_springs_ok evolves_grid_ok assms u
  show ?thesis by blast
qed

lemma tear_step_form: "\<exists>ps sps. tear_step m i s = s\<lparr>particles := ps, springs := sps\<rparr>"
proof (cases "within_tear_radius m (particles s ! i)")
  case True
  then show ?thesis by (auto simp: tear_step_def Let_def within_tear_radius_def)
next
  case False
  then have "tear_step m i s = s" by (auto simp: tear_step_def Let_def within_tear_radius_def)
  then have "tear_step m i s = s\<lparr>particles := particles s, springs := springs s\<rparr>" by simp
  then show ?thesis by blast
qed

lemma fold_tear_form: "\<exists>ps sps. fold (tear_step m) is s = s\<lparr>particles := ps, springs := sps\<rparr>"
proof (induction "is" arbitrary: s)
  case Nil
  show ?case by (rule exI [of _ "particles s"], rule exI [of _ "springs s"]) simp
next
  case (Cons i "is")
  from tear_step_form [of m i s] obtain ps sps
    where 1: "tear_step m i s = s\<lparr>particles := ps, springs := sps\<rparr>" by blast
  from Cons [of "s\<lparr>particles := ps, springs := sps\<rparr>"] obtain ps' sps'
    where "fold (tear_step m) is (s\<lparr>particles := ps, springs := sps\<rparr>) = s\<lparr>particles := ps', springs := sps'\<rparr>"
    by auto
  with 1 show ?case by auto
qed

lemma fold_tear_prefix:
  assumes "k \<le> length (particles s)"
  shows "particles (fold (tear_step m) [0..<k] s) =
           map (\<lambda>i. if i < k \<and> within_tear_radius m (particles s ! i)
                      then (particles s ! i)\<lparr>active := False\<rparr> else particles s ! i)
               [0..<length (particles s)] \<and>
         springs (fold (tear_step m) [0..<k] s) =
           map (\<lambda>sp. if (\<exists>i<k. within_tear_radius m (particles s ! i) \<and>
                                 (particle1 sp = int i \<or> particle2 sp = int i))
                       then sp\<lparr>sactive := False\<rparr> else sp)
               (springs s)"
  using assms
proof (induction k)
  case 0
  then show ?case by (simp add: map_nth)
next
  case (Suc k)
  let ?ps = "particles s" and ?n = "length (particles s)"
  let ?c = "fold (tear_step m) [0..<k] s"
  from Suc have k: "k < ?n" and
    P: "particles ?c = map (\<lambda>i. if i < k \<and> within_tear_radius m (?ps ! i)
                      then (?ps ! i)\<lparr>active := False\<rparr> else ?ps ! i) [0..<?n]" and
    S: "springs ?c = map (\<lambda>sp. if (\<exists>i<k. within_tear_radius m (?ps ! i) \<and>
                                 (particle1 sp = int i \<or> particle2 sp = int i))
                       then sp\<lparr>sactive := False\<rparr> else sp) (springs s)"
    by simp_all
  have pk: "particles ?c ! k = ?ps ! k" using k by (simp add: P)
  have f: "fold (tear_step m) [0..<Suc k] s = tear_step m k ?c" by simp
  show ?case
  proof (cases "within_tear_radius m (?ps ! k)")
    case False
    then have e1: "tear_step m k ?c = ?c"
      by (auto simp: tear_step_def Let_def within_tear_radius_def pk)
    have e2: "(\<lambda>i. if i < Suc k \<and> within_tear_radius m (?ps ! i)
                  then (?ps ! i)\<lparr>active := False\<rparr> else ?ps ! i) =
              (\<lambda>i. if i < k \<and> within_tear_radius m (?ps ! i)
                  then (?ps ! i)\<lparr>active := False\<rparr> else ?ps ! i)"
      using False by (auto simp: fun_eq_iff less_Suc_eq)
    have e3: "(\<lambda>sp. if (\<exists>i<Suc k. within_tear_radius m (?ps ! i) \<and>
                                 (particle1 sp = int i \<or> particle2 sp = int i))
                       then sp\<lparr>sactive := False\<rparr> else sp) =
              (\<lambda>sp. if (\<exists>i<k. within_tear_radius m (?ps ! i) \<and>
                                 (particle1 sp = int i \<or> particle2 sp = int i))
                       then sp\<lparr>sactive := False\<rparr> else sp)"
      using False by (auto simp: fun_eq_iff less_Suc_eq)
    show ?thesis unfolding f e1 e2 e3 using P S by blast
  next
    case True
    then have t: "tear_step m k ?c =
      ?c\<lparr>particles := (particles ?c)[k := (?ps ! k)\<lparr>active := False\<rparr>],
         springs := map (\<lambda>spring. if particle1 spring = int k \<or> particle2 spring = int k
                                    then spring\<lparr>sactive := False\<rparr> else spring) (springs ?c)\<rparr>"
      by (auto simp: tear_step_def Let_def within_tear_radius_def pk)
    have "(particles ?c)[k := (?ps ! k)\<lparr>active := False\<rparr>] =
        map (\<lambda>i. if i < Suc k \<and> within_tear_radius m (?ps ! i)
                      then (?ps ! i)\<lparr>active := False\<rparr> else ?ps ! i) [0..<?n]"
      unfolding P by (rule nth_equalityI) (use True k in \<open>auto simp: nth_list_update less_Suc_eq\<close>)
    moreover have "map (\<lambda>spring. if particle1 spring = int k \<or> particle2 spring = int k
                                    then spring\<lparr>sactive := False\<rparr> else spring) (springs ?c) =
        map (\<lambda>sp. if (\<exists>i<Suc k. within_tear_radius m (?ps ! i) \<and>
                                 (particle1 sp = int i \<or> particle2 sp = int i))
                       then sp\<lparr>sactive := False\<rparr> else sp) (springs s)"
      unfolding S map_map by (rule map_cong) (use True in \<open>auto simp: less_Suc_eq\<close>)
    ultimately show ?thesis unfolding f t by simp
  qed
qed

lemma handleMouseInteraction_both:
  "handleMouseInteraction s mousePos True =
     s\<lparr>particles := map (\<lambda>p. if within_tear_radius mousePos p then p\<lparr>active := False\<rparr> else p)
                       (particles s),
       springs := map (\<lambda>sp. if touches_torn s mousePos sp then sp\<lparr>sactive := False\<rparr> else sp)
                     (springs s)\<rparr> \<and>
   handleMouseInteraction s mousePos False = s"
proof -
  let ?h = "fold (tear_step mousePos) [0..<length (particles s)] s"
  from fold_tear_form [of mousePos "[0..<length (particles s)]" s]
  obtain ps sps where h: "?h = s\<lparr>particles := ps, springs := sps\<rparr>" by blast
  then have h': "?h = s\<lparr>particles := particles ?h, springs := springs ?h\<rparr>" by simp
  from fold_tear_prefix [of "length (particles s)" s mousePos]
  have P: "particles ?h = map (\<lambda>i. if i < length (particles s) \<and> within_tear_radius mousePos (particles s ! i)
                      then (particles s ! i)\<lparr>active := False\<rparr> else particles s ! i)
               [0..<length (particles s)]"
    and S: "springs ?h = map (\<lambda>sp. if touches_torn s mousePos sp then sp\<lparr>sactive := False\<rparr> else sp)
                     (springs s)"
    unfolding touches_torn_def by blast+
  have "particles ?h = map (\<lambda>p. if within_tear_radius mousePos p then p\<lparr>active := False\<rparr> else p)
                       (particles s)"
    unfolding P by (rule nth_equalityI) simp_all
  with S h' show ?thesis by (simp add: handleMouseInteraction_def)
qed

lemma handleMouseInteraction_eq:
  "handleMouseInteraction s mousePos True =
     s\<lparr>particles := map (\<lambda>p. if within_tear_radius mousePos p then p\<lparr>active := False\<rparr> else p)
                       (particles s),
       springs := map (\<lambda>sp. if touches_torn s mousePos sp then sp\<lparr>sactive := False\<rparr> else sp)
                     (springs s)\<rparr>"
  using handleMouseInteraction_both [of s mousePos] by blast

text \<open>
  Claim C8. \<^verbatim>\<open>handleMouseInteraction(worldPosition, true)\<close> clears the \<open>active\<close> flag of
  every active particle closer than 0.08 to \<open>worldPosition\<close> and of every spring that
  has such a particle at one end, and changes nothing else (no other particle, spring or
  field of the object); with \<open>tearing = false\<close> it returns the state as it was.
\<close>

theorem mouse_interaction_tears:
  "handleMouseInteraction s mousePos True =
     s\<lparr>particles := map (\<lambda>p. if within_tear_radius mousePos p then p\<lparr>active := False\<rparr> else p)
                       (particles s),
       springs := map (\<lambda>sp. if touches_torn s mousePos sp then sp\<lparr>sactive := False\<rparr> else sp)
                     (springs s)\<rparr> \<and>
   handleMouseInteraction s mousePos False = s"
  by (rule handleMouseInteraction_both)

lemma handleMouseInteraction_evolves:
  assumes "motion_rel R" "\<And>p. R p (p\<lparr>active := False\<rparr>)"
  shows "evolves R s (handleMouseInteraction s m b)"
proof (cases b)
  case False
  then show ?thesis by (simp add: handleMouseInteraction_def evolves_refl [OF assms(1)])
next
  case True
  then have b: "b = True" by simp
  have "R p p" for p using assms(1) by (simp add: motion_rel_def)
  then show ?thesis
    using assms(2) unfolding b handleMouseInteraction_eq
    by (simp add: evolves_def list_all2_conv_all_nth torn_or_same_def same_frame_def)
qed

lemma setter_evolves:
  assumes "motion_rel R" "particles t = particles s" "springs t = springs s" "same_frame s t"
  shows "evolves R s t"
  by (rule evolves_frame_change [OF evolves_refl [OF assms(1)] assms(2-4)])

lemma perform_evolves:
  assumes "perform c s = Inr s'" "\<not> rebuilds c"
    and "motion_rel R" "collision_rel R" "\<And>p. R p (p\<lparr>active := False\<rparr>)"
  shows "evolves R s s'"
proof (cases c)
  case (Update dt)
  with assms(1) show ?thesis by (simp add: update_evolves [OF _ assms(3,4)])
next
  case (HandleMouseInteraction m b)
  with assms(1) handleMouseInteraction_evolves [OF assms(3,5), of s m b] show ?thesis by auto
next
  case (SetMode m)
  with assms(2) show ?thesis by simp
next
  case Reset
  with assms(2) show ?thesis by simp
next
  case (SetGravity g)
  with assms(1) show ?thesis
    by (auto intro!: setter_evolves [OF assms(3)] simp: same_frame_def setGravity_def)
next
  case (SetDamping d)
  with assms(1) show ?thesis
    by (auto intro!: setter_evolves [OF assms(3)] simp: same_frame_def setDamping_def)
next
  case (SetWindStrength w)
  with assms(1) show ?thesis
    by (auto intro!: setter_evolves [OF assms(3)] simp: same_frame_def setWindStrength_def)
next
  case (SetWindDirection d)
  with assms(1) show ?thesis
    by (auto intro!: setter_evolves [OF assms(3)] simp: same_frame_def setWindDirection_def)
next
  case (SetTearThreshold d)
  with assms(1) show ?thesis
    by (auto intro!: setter_evolves [OF assms(3)] simp: same_frame_def setTearThreshold_def)
next
  case (AddSphere c r)
  with assms(1) show ?thesis
    by (auto intro!: setter_evolves [OF assms(3)] simp: same_frame_def addSphere_def)
next
  case ClearCollisionObjects
  with assms(1) show ?thesis
    by (auto intro!: setter_evolves [OF assms(3)] simp: same_frame_def clearCollisionObjects_def)
qed



lemma pin_cases:
  assumes "pin i ps = Inr ps'"
  shows "list_all2 pin_rel ps ps'"
proof -
  from assms have "ps' = ps[nat i := (ps ! nat i)\<lparr>pinned := True\<rparr>]"
    by (auto simp: pin_def bindE_eq_Inr elemAt_def upd_def split: if_splits)
  then show ?thesis
    by (cases "nat i < length ps") (auto simp: list_all2_conv_all_nth nth_list_update pin_rel_def)
qed

lemma pin_rel_trans: "list_all2 pin_rel a b \<Longrightarrow> list_all2 pin_rel b c \<Longrightarrow> list_all2 pin_rel a c"
  by (rule list_all2_trans [of pin_rel pin_rel pin_rel]) (auto simp: pin_rel_def)

lemma pin_top_row_cases:
  assumes "pin_top_row t = Inr t'"
  shows "\<exists>ps. t' = t\<lparr>particles := ps\<rparr> \<and> list_all2 pin_rel (particles t) ps"
proof -
  from assms obtain ps where f: "foldE (\<lambda>x. pin ((gridHeight t - 1) * gridWidth t + x)) [0..gridWidth t - 1] (particles t) = Inr ps"
    and t': "t' = t\<lparr>particles := ps\<rparr>"
    by (auto simp: pin_top_row_def bindE_eq_Inr)
  have "list_all2 pin_rel (particles t) ps"
  proof (rule foldE_inv [OF f, where P = "\<lambda>l. list_all2 pin_rel (particles t) l"])
    show "list_all2 pin_rel (particles t) (particles t)"
      by (simp add: list_all2_refl pin_rel_def)
  next
    fix x c c'
    assume "list_all2 pin_rel (particles t) c"
      "pin ((gridHeight t - 1) * gridWidth t + x) c = Inr c'"
    then show "list_all2 pin_rel (particles t) c'"
      using pin_cases pin_rel_trans by blast
  qed
  with t' show ?thesis by blast
qed

lemma setMode_cases:
  assumes "setMode s m = Inr s'"
  shows "\<exists>s0. reset s = Inr s0 \<and> springs s' = springs s0 \<and> same_frame s0 s' \<and>
           list_all2 pin_rel (particles s0) (particles s')"
proof -
  from assms obtain s0 where r: "reset s = Inr s0" by (auto simp: setMode_def bindE_eq_Inr)
  show ?thesis
  proof (cases m)
    case TEAR
    with assms r have "pin_top_row ((clearCollisionObjects s0)\<lparr>windStrength := 0\<rparr>) = Inr s'"
      by (simp add: setMode_def)
    from pin_top_row_cases [OF this] r show ?thesis
      by (auto simp: clearCollisionObjects_def same_frame_def)
  next
    case FLAG
    with assms r have "pin_top_row ((clearCollisionObjects s0)
                          \<lparr>windStrength := 6, windDirection := normalize (Vec3 0 0 (- 1))\<rparr>) = Inr s'"
      by (simp add: setMode_def)
    from pin_top_row_cases [OF this] r show ?thesis
      by (auto simp: clearCollisionObjects_def same_frame_def)
  next
    case COLLISION
    let ?s1 = "(addSphere (clearCollisionObjects s0) (Vec3 0 1 6) 0.8)\<lparr>windStrength := 0\<rparr>"
    from assms r COLLISION obtain ps1 ps2 where
      1: "pin ((gridHeight ?s1 - 1) * gridWidth ?s1) (particles ?s1) = Inr ps1" and
      2: "pin ((gridHeight ?s1 - 1) * gridWidth ?s1 + (gridWidth ?s1 - 1)) ps1 = Inr ps2" and
      s': "s' = ?s1\<lparr>particles := ps2\<rparr>"
      by (auto simp: setMode_def Let_def bindE_eq_Inr)
    have "list_all2 pin_rel (particles ?s1) ps2"
      using pin_cases [OF 1] pin_cases [OF 2] by (rule pin_rel_trans)
    with r show ?thesis
      by (auto simp: s' addSphere_def clearCollisionObjects_def same_frame_def)
  qed
qed

lemma reset_still:
  assumes "reset s = Inr s'"
  shows "still s'"
proof -
  from assms createClothGrid_result [of s s'] obtain sps vs idx where
    "s' = s\<lparr>particles := grid_particles s, springs := sps, vertices := vs, indices := idx\<rparr>"
    unfolding reset_def by blast
  then show ?thesis
    by (auto simp: still_def grid_particles_def make_particle_def Particle_ctor_def Let_def)
qed

lemma setMode_still:
  assumes "setMode s m = Inr s'"
  shows "still s'"
proof -
  from setMode_cases [OF assms] obtain s0 where r: "reset s = Inr s0"
    and l: "list_all2 pin_rel (particles s0) (particles s')" by blast
  have "velocity q = vzero" if "q \<in> set (particles s')" for q
  proof -
    from that obtain i where i: "i < length (particles s')" "q = particles s' ! i"
      by (auto simp: in_set_conv_nth)
    with l have "q = particles s0 ! i \<or> q = (particles s0 ! i)\<lparr>pinned := True\<rparr>"
      and "particles s0 ! i \<in> set (particles s0)"
      by (auto simp: list_all2_conv_all_nth pin_rel_def)
    with reset_still [OF r] show ?thesis by (auto simp: still_def)
  qed
  then show ?thesis by (simp add: still_def)
qed

lemma collide_sphere_velocity: "velocity (fold collide_sphere ss p) = velocity p"
  by (induction ss arbitrary: p) (simp_all add: collide_sphere_def Let_def)

lemma same_velocity_rel:
  "motion_rel same_velocity" "collision_rel same_velocity" "same_velocity p (p\<lparr>active := False\<rparr>)"
  by (auto simp: motion_rel_def collision_rel_def same_velocity_def applyForces_particle_def
      applyWindForce_def integrate_particle_def collide_particle_def collide_ground_def Let_def
      collide_sphere_velocity)

lemma grid_cells_2_2: "grid_cells 2 2 = [(0, 0), (1, 0), (0, 1), (1, 1)]"
  by (simp add: grid_cells_def upto_rec1)

lemma grid_particles_2_2:
  "grid_particles (initial_system 2 2 4 4 st) =
     [Particle_ctor (Vec3 (- 2) 0 0), Particle_ctor (Vec3 2 0 0),
      (Particle_ctor (Vec3 (- 2) 4 0))\<lparr>pinned := True\<rparr>, (Particle_ctor (Vec3 2 4 0))\<lparr>pinned := True\<rparr>]"
  by (simp add: grid_particles_def grid_cells_2_2 make_particle_def initial_system_def)


lemma stress_free_springs_ok: "stress_free s \<Longrightarrow> springs_ok s"
  by (simp add: stress_free_def springs_ok_def)

lemma createClothGrid_well_formed:
  assumes "0 \<le> gridWidth s" "0 \<le> gridHeight s"
  shows "\<exists>vs idx. createClothGrid s =
           Inr (s\<lparr>particles := grid_particles s, springs := grid_springs s,
                  vertices := vs, indices := idx\<rparr>) \<and>
           well_formed (s\<lparr>particles := grid_particles s, springs := grid_springs s,
                  vertices := vs, indices := idx\<rparr>)"
proof -
  from createClothGrid_eq [OF assms] obtain vs idx where
    e: "createClothGrid s = Inr (s\<lparr>particles := grid_particles s, springs := grid_springs s,
                  vertices := vs, indices := idx\<rparr>)" by blast
  from createClothGrid_stress_free [OF assms] e
  have "springs_ok (s\<lparr>particles := grid_particles s, springs := grid_springs s,
                  vertices := vs, indices := idx\<rparr>)"
    by (auto dest: stress_free_springs_ok)
  moreover have "grid_ok (s\<lparr>particles := grid_particles s, springs := grid_springs s,
                  vertices := vs, indices := idx\<rparr>)"
    using assms length_grid_particles [OF assms] by (simp add: grid_ok_def)
  ultimately show ?thesis using e by (auto simp: well_formed_def)
qed

lemma evolves_well_formed: "evolves R s t \<Longrightarrow> well_formed s \<Longrightarrow> well_formed t"
  by (auto simp: well_formed_def dest: evolves_springs_ok evolves_grid_ok)

lemma perform_ok:
  assumes "well_formed s" "\<And>m. c \<noteq> SetMode m"
  shows "\<exists>s'. perform c s = Inr s' \<and> well_formed s' \<and> same_frame s s'"
proof (cases "rebuilds c")
  case True
  with assms(2) have c: "c = Reset" by (cases c) auto
  from assms(1) have "0 \<le> gridWidth s" "0 \<le> gridHeight s" by (auto simp: well_formed_def grid_ok_def)
  from createClothGrid_well_formed [OF this] show ?thesis by (auto simp: c reset_def same_frame_def)
next
  case False
  have "\<exists>s'. perform c s = Inr s'"
  proof (cases c)
    case (Update dt)
    with update_ok [of s dt] assms(1) show ?thesis by (auto simp: well_formed_def)
  qed (use False in auto)
  then obtain s' where s': "perform c s = Inr s'" ..
  have "same_velocity p (p\<lparr>active := False\<rparr>)" for p by (rule same_velocity_rel(3))
  from perform_evolves [OF s' False same_velocity_rel(1,2) this]
  have e: "evolves same_velocity s s'" .
  from e have "same_frame s s'" by (simp add: evolves_def)
  with evolves_well_formed [OF e assms(1)] s' show ?thesis by blast
qed

lemma same_frame_trans: "same_frame a b \<Longrightarrow> same_frame b c \<Longrightarrow> same_frame a c"
  by (simp add: same_frame_def)

lemma run_ok:
  assumes "well_formed s" "\<forall>c\<in>set cs. \<forall>m. c \<noteq> SetMode m"
  shows "\<exists>s'. run cs s = Inr s' \<and> well_formed s' \<and> same_frame s s'"
  unfolding run_def
proof (rule foldE_ok_inv)
  show "well_formed s \<and> same_frame s s" using assms(1) by (simp add: same_frame_def)
next
  fix c t
  assume "c \<in> set cs" "well_formed t \<and> same_frame s t"
  with assms(2) perform_ok [of t c] same_frame_trans [of s t]
  show "\<exists>t'. perform c t = Inr t' \<and> well_formed t' \<and> same_frame s t'" by blast
qed

lemma ctor_well_formed:
  assumes "0 \<le> W" "0 \<le> H"
  shows "\<exists>s. ClothSystem_ctor W H w h st = Inr s \<and> well_formed s \<and>
             particles s = grid_particles (initial_system W H w h st) \<and>
             springs s = grid_springs (initial_system W H w h st) \<and>
             same_frame (initial_system W H w h st) s"
  using createClothGrid_well_formed [of "initial_system W H w h st"] assms
  by (auto simp: ClothSystem_ctor_def initial_system_def same_frame_def)

lemma still_same_velocity:
  assumes "list_all2 same_velocity (particles s) (particles s')"
  shows "map velocity (particles s') = map velocity (particles s)"
  using assms by (auto simp: list_all2_conv_all_nth same_velocity_def intro!: nth_equalityI)

lemma perform_velocity:
  assumes "perform c s = Inr s'" "\<not> rebuilds c"
  shows "map velocity (particles s') = map velocity (particles s)"
proof -
  have "same_velocity p (p\<lparr>active := False\<rparr>)" for p by (rule same_velocity_rel(3))
  from perform_evolves [OF assms same_velocity_rel(1,2) this]
  show ?thesis by (auto simp: evolves_def intro: still_same_velocity)
qed

lemma perform_still:
  assumes "perform c s = Inr s'" "still s"
  shows "still s'"
proof (cases "rebuilds c")
  case False
  from perform_velocity [OF assms(1) False] have "set (map velocity (particles s')) = set (map velocity (particles s))"
    by simp
  with assms(2) show ?thesis by (auto simp: still_def)
next
  case True
  then show ?thesis using assms(1) by (cases c) (auto intro: reset_still setMode_still)
qed

lemma ctor_still:
  assumes "ClothSystem_ctor W H w h st = Inr s"
  shows "still s"
  using assms reset_still [of "initial_system W H w h st" s]
  by (simp add: ClothSystem_ctor_def reset_def)

lemma vsub_vzero: "vsub a vzero = a"
  by (cases a) (simp add: vsub_def vzero_def)

text \<open>
  Claim C10. The velocity of every particle is the zero vector after construction and
  after any sequence of operations; an operation that does not rebuild the grid leaves
  every velocity field as it was (the rebuilding ones set it to zero again). So in
  \<^verbatim>\<open>applyWindForce\<close> the relative velocity is the wind vector itself and the force added
  is the drag of the wind alone.
\<close>

theorem velocity_never_written:
  "(ClothSystem_ctor W H w h st = Inr s0 \<and> run cs s0 = Inr s \<longrightarrow> still s) \<and>
   (\<not> rebuilds c \<and> perform c s1 = Inr s2 \<longrightarrow> map velocity (particles s2) = map velocity (particles s1)) \<and>
   (still s3 \<and> p \<in> set (particles s3) \<longrightarrow>
      relativeVelocity s3 st' p = wind s3 st' \<and>
      applyWindForce s3 st' p =
        (if vlength (wind s3 st') > 0
         then p\<lparr>force := vadd (force p) (vscale (windForce (wind s3 st')) (mass p))\<rparr>
         else p, st'\<lparr>drawn := drawn st' + 3\<rparr>))"
proof -
  have 1: "still s" if "ClothSystem_ctor W H w h st = Inr s0" "run cs s0 = Inr s"
    using that(2) unfolding run_def
    by (rule foldE_inv [where P = still]) (use ctor_still [OF that(1)] perform_still in auto)
  have 2: "map velocity (particles s2) = map velocity (particles s1)"
    if "\<not> rebuilds c" "perform c s1 = Inr s2"
    using that by (intro perform_velocity)
  have 3: "relativeVelocity s3 st' p = wind s3 st'" if "still s3" "p \<in> set (particles s3)"
    using that by (simp add: relativeVelocity_def still_def vsub_vzero)
  have 4: "applyWindForce s3 st' p =
        (if vlength (wind s3 st') > 0
         then p\<lparr>force := vadd (force p) (vscale (windForce (wind s3 st')) (mass p))\<rparr>
         else p, st'\<lparr>drawn := drawn st' + 3\<rparr>)" if "still s3" "p \<in> set (particles s3)"
    by (simp add: applyWindForce_def Let_def 3 [OF that])
  from 1 2 3 4 show ?thesis by blast
qed

theorem velocity_never_written_witness:
  "\<exists>s0 s. ClothSystem_ctor 2 2 4 4 (initial_statics (\<lambda>n. 0)) = Inr s0 \<and>
     run [SetWindStrength 6, Update (1 / 60), HandleMouseInteraction (Vec3 2 0 0) True, Reset, Update (1 / 30)] s0 = Inr s \<and>
     still s \<and>
     map velocity (particles (setGravity s 0)) = map velocity (particles s) \<and>
     relativeVelocity s (statics s) (particles s ! 0) = wind s (statics s)"
proof -
  let ?st = "initial_statics (\<lambda>n. 0)"
  let ?cs = "[SetWindStrength 6, Update (1 / 60), HandleMouseInteraction (Vec3 2 0 0) True, Reset, Update (1 / 30)]"
  from ctor_well_formed [of 2 2 4 4 ?st] obtain s0 where
    s0: "ClothSystem_ctor 2 2 4 4 ?st = Inr s0" and wf: "well_formed s0"
    and f0: "same_frame (initial_system 2 2 4 4 ?st) s0" by auto
  from run_ok [OF wf, of ?cs] obtain s where s: "run ?cs s0 = Inr s" and wfs: "well_formed s"
    and f: "same_frame s0 s" by auto
  from wfs f0 f have "int (length (particles s)) = 2 * 2"
    by (simp add: well_formed_def grid_ok_def same_frame_def initial_system_def)
  then have ne: "particles s \<noteq> []" by auto
  from velocity_never_written [of 2 2 4 4 ?st s0 ?cs s "SetGravity 0" s "setGravity s 0" s "particles s ! 0" "statics s"]
    s0 s ne
  show ?thesis by auto
qed

section \<open>Pinned particles and collisions\<close>

lemma frozen_rel: "motion_rel frozen"
  by (auto simp: motion_rel_def frozen_def applyForces_particle_def integrate_particle_def)

lemma constraints_loop_spheres:
  assumes "foldE (\<lambda>i. satisfyConstraints) ns t = Inr t'"
  shows "spheres t' = spheres t"
proof (rule foldE_inv [OF assms, where P = "\<lambda>c. spheres c = spheres t"])
  fix i :: 'a and c c'
  assume c: "spheres c = spheres t" and s: "satisfyConstraints c = Inr c'"
  have "spheres c' = spheres c"
    using s unfolding satisfyConstraints_def
    by (rule foldE_inv [where P = "\<lambda>d. spheres d = spheres c"])
       (simp_all add: constraint_step_frame)
  with c show "spheres c' = spheres t" by simp
qed simp

lemma collide_particle_spheres: "spheres t = spheres s \<Longrightarrow> collide_particle t = collide_particle s"
  by (simp add: collide_particle_def fun_eq_iff)

text \<open>An update that runs the body of its loop exactly once.\<close>

lemma update_one_step:
  assumes u: "update s dt = Inr s'"
    and ge: "fixedTimeStep \<le> elapsedTime s + dt" and lt: "elapsedTime s + dt < 2 * fixedTimeStep"
    and R: "motion_rel R"
  shows "\<exists>t. evolves R s t \<and> particles s' = map (collide_particle s) (particles t)"
proof -
  let ?s0 = "s\<lparr>elapsedTime := elapsedTime s + dt\<rparr>"
  from u obtain l where l: "physics_loop ?s0 = Inr l"
    and v: "updateVertexData (updateWindVariation (updateObjectMovement l dt) dt) = Inr s'"
    by (auto simp: update_def bindE_eq_Inr)
  from l ge obtain a where a: "physics_step ?s0 = Inr a"
    and l2: "physics_loop (a\<lparr>elapsedTime := elapsedTime a - fixedTimeStep\<rparr>) = Inr l"
    by (auto simp: physics_loop.simps [of ?s0] split: sum.splits)
  from physics_step_elapsedTime [OF a] lt
  have "\<not> fixedTimeStep \<le> elapsedTime (a\<lparr>elapsedTime := elapsedTime a - fixedTimeStep\<rparr>)"
    by simp
  with l2 have le: "l = a\<lparr>elapsedTime := elapsedTime a - fixedTimeStep\<rparr>"
    by (simp add: physics_loop.simps [of "a\<lparr>elapsedTime := elapsedTime a - fixedTimeStep\<rparr>"])
  from a obtain t where t: "foldE (\<lambda>i. satisfyConstraints) [0 ..< 3] (integrateVerlet (applyForces ?s0) fixedTimeStep) = Inr t"
    and at: "a = handleCollisions t" by (rule physics_step_split)
  have "evolves R ?s0 t" by (rule before_collisions_evolves [OF t R])
  then have e: "evolves R s t" by (simp add: evolves_def same_frame_def)
  have "spheres t = spheres s"
    using constraints_loop_spheres [OF t] by (simp add: integrateVerlet_def applyForces_frame)
  then have c: "collide_particle t = collide_particle s" by (rule collide_particle_spheres)
  from updateVertexData_fields [OF v] have "particles s' = particles l"
    by (auto simp: updateWindVariation_frame updateObjectMovement_frame)
  with le at c have "particles s' = map (collide_particle s) (particles t)"
    by (simp add: handleCollisions_def)
  with e show ?thesis by blast
qed

lemma addSphere_well_formed: "well_formed s \<Longrightarrow> well_formed (addSphere s c r)"
  by (rule evolves_well_formed [OF setter_evolves [OF any_motion_rel(1)]])
     (simp_all add: addSphere_def same_frame_def)

lemma ctor_2_2:
  "\<exists>vs idx. ClothSystem_ctor 2 2 4 4 st =
     Inr ((initial_system 2 2 4 4 st)
            \<lparr>particles := grid_particles (initial_system 2 2 4 4 st),
             springs := grid_springs (initial_system 2 2 4 4 st), vertices := vs, indices := idx\<rparr>)"
  using createClothGrid_eq [of "initial_system 2 2 4 4 st"]
  by (simp add: ClothSystem_ctor_def initial_system_def)

text \<open>
  Claim C1 fails on the code. The force, integration and constraint stages leave a
  pinned particle as it was (\<open>frozen_rel\<close>), but \<^verbatim>\<open>handleCollisions\<close> skips only the
  inactive particles: on the 2 by 2 grid with a sphere of radius 1 centred on the pinned
  particle with index 2, one \<^verbatim>\<open>update(1/60)\<close> moves that particle from \<open>(-2, 4, 0)\<close>
  to \<open>(-2, 5, 0)\<close>.
\<close>

theorem pinned_particle_moved_by_collision:
  "(case ClothSystem_ctor 2 2 4 4 (initial_statics (\<lambda>n. 0)) of
      Inl e \<Rightarrow> False
    | Inr s0 \<Rightarrow>
        pinned (particles s0 ! 2) \<and> position (particles s0 ! 2) = Vec3 (- 2) 4 0 \<and>
        (case update (addSphere s0 (Vec3 (- 2) 4 0) 1) (1 / 60) of
           Inl e \<Rightarrow> False
         | Inr s' \<Rightarrow> pinned (particles s' ! 2) \<and> position (particles s' ! 2) = Vec3 (- 2) 5 0))"
proof -
  let ?st = "initial_statics (\<lambda>n. 0)"
  from ctor_2_2 [of ?st] obtain vs idx where
    c: "ClothSystem_ctor 2 2 4 4 ?st =
     Inr ((initial_system 2 2 4 4 ?st)
            \<lparr>particles := grid_particles (initial_system 2 2 4 4 ?st),
             springs := grid_springs (initial_system 2 2 4 4 ?st), vertices := vs, indices := idx\<rparr>)"
    by blast
  define s0 where "s0 = (initial_system 2 2 4 4 ?st)
            \<lparr>particles := grid_particles (initial_system 2 2 4 4 ?st),
             springs := grid_springs (initial_system 2 2 4 4 ?st), vertices := vs, indices := idx\<rparr>"
  from ctor_well_formed [of 2 2 4 4 ?st] c have wf: "well_formed s0" by (auto simp: s0_def)
  define s1 where "s1 = addSphere s0 (Vec3 (- 2) 4 0) 1"
  have wf1: "well_formed s1"
    unfolding s1_def using wf by (rule addSphere_well_formed)
  from update_ok [of s1 "1 / 60"] wf1 obtain s' where u: "update s1 (1 / 60) = Inr s'"
    by (auto simp: well_formed_def)
  have el: "elapsedTime s1 = 0" by (simp add: s1_def s0_def addSphere_def initial_system_def)
  have ps: "particles s1 = grid_particles (initial_system 2 2 4 4 ?st)"
    by (simp add: s1_def s0_def addSphere_def)
  have sph: "spheres s1 = [\<lparr>center = Vec3 (- 2) 4 0, radius = 1\<rparr>]"
    by (simp add: s1_def s0_def addSphere_def initial_system_def)
  from update_one_step [OF u _ _ frozen_rel] el obtain t where
    e: "evolves frozen s1 t" and p': "particles s' = map (collide_particle s1) (particles t)"
    by (auto simp: fixedTimeStep_def)
  let ?p = "(Particle_ctor (Vec3 (- 2) 4 0))\<lparr>pinned := True\<rparr>"
  from e have la: "list_all2 frozen (particles s1) (particles t)" by (simp add: evolves_def)
  have len: "2 < length (particles t)"
    using list_all2_lengthD [OF la] by (simp add: ps grid_particles_2_2)
  have "frozen (particles s1 ! 2) (particles t ! 2)"
    by (rule list_all2_nthD [OF la]) (simp add: ps grid_particles_2_2)
  then have t2: "particles t ! 2 = ?p"
    by (simp add: frozen_def ps grid_particles_2_2 Particle_ctor_def)
  have cp: "collide_particle s1 ?p = ?p\<lparr>position := Vec3 (- 2) 5 0, oldPosition := Vec3 (- 2) (26 / 5) 0\<rparr>"
    by (simp add: collide_particle_def sph collide_sphere_def collide_ground_def Particle_ctor_def
        Let_def vsub_def vlength_def dot_def vadd_def vscale_def)
  have "particles s' ! 2 = ?p\<lparr>position := Vec3 (- 2) 5 0, oldPosition := Vec3 (- 2) (26 / 5) 0\<rparr>"
    using len by (simp add: p' t2 cp)
  then have 2: "pinned (particles s' ! 2) \<and> position (particles s' ! 2) = Vec3 (- 2) 5 0"
    by (simp add: Particle_ctor_def)
  have 1: "pinned (particles s0 ! 2) \<and> position (particles s0 ! 2) = Vec3 (- 2) 4 0"
    by (simp add: s0_def grid_particles_2_2 Particle_ctor_def)
  show ?thesis
    using 1 2 u unfolding c s0_def [symmetric] s1_def by simp
qed

lemma update_no_step:
  assumes "elapsedTime s + dt < fixedTimeStep" "grid_ok s"
  shows "\<exists>s'. update s dt = Inr s' \<and> particles s' = particles s \<and>
           spheres s' = spheres (updateObjectMovement (s\<lparr>elapsedTime := elapsedTime s + dt\<rparr>) dt)"
proof -
  let ?s0 = "s\<lparr>elapsedTime := elapsedTime s + dt\<rparr>"
  let ?u = "updateWindVariation (updateObjectMovement ?s0 dt) dt"
  have l: "physics_loop ?s0 = Inr ?s0" using assms(1) by (simp add: physics_loop.simps [of ?s0])
  have "grid_ok ?u"
    using assms(2) updateObjectMovement_frame [of ?s0 dt]
      updateWindVariation_frame [of "updateObjectMovement ?s0 dt" dt]
    by (simp add: grid_ok_def same_frame_def)
  from updateVertexData_ok [OF this] obtain vs idx
    where "updateVertexData ?u = Inr (?u\<lparr>vertices := vs, indices := idx\<rparr>)" by blast
  with l have "update s dt = Inr (?u\<lparr>vertices := vs, indices := idx\<rparr>)" by (simp add: update_def)
  moreover have "particles ?u = particles s"
    by (simp add: updateWindVariation_frame updateObjectMovement_frame)
  moreover have "spheres ?u = spheres (updateObjectMovement ?s0 dt)"
    by (simp add: updateWindVariation_def Let_def)
  ultimately show ?thesis by simp
qed

text \<open>
  Claim C2 as stated fails: on the 2 by 2 grid with one sphere of radius 1 at
  \<open>(-2, 0, 4)\<close>, \<^verbatim>\<open>update(1/100)\<close> runs no fixed step (so no collision stage) and then
  moves the sphere to \<open>(-2, 0, -0.008)\<close>; the active particle with index 0, at
  \<open>(-2, 0, 0)\<close>, is then 0.008 from the centre of the sphere.
\<close>

theorem particle_inside_sphere_after_update:
  "(case ClothSystem_ctor 2 2 4 4 (initial_statics (\<lambda>n. 0)) of
      Inl e \<Rightarrow> False
    | Inr s0 \<Rightarrow>
        (case update (addSphere s0 (Vec3 (- 2) 0 4) 1) (1 / 100) of
           Inl e \<Rightarrow> False
         | Inr s' \<Rightarrow>
             active (particles s' ! 0) \<and>
             vlength (vsub (position (particles s' ! 0)) (center (spheres s' ! 0)))
               < radius (spheres s' ! 0) - 1 / 2))"
proof -
  let ?st = "initial_statics (\<lambda>n. 0)"
  from ctor_2_2 [of ?st] obtain vs idx where
    c: "ClothSystem_ctor 2 2 4 4 ?st =
     Inr ((initial_system 2 2 4 4 ?st)
            \<lparr>particles := grid_particles (initial_system 2 2 4 4 ?st),
             springs := grid_springs (initial_system 2 2 4 4 ?st), vertices := vs, indices := idx\<rparr>)"
    by blast
  define s0 where "s0 = (initial_system 2 2 4 4 ?st)
            \<lparr>particles := grid_particles (initial_system 2 2 4 4 ?st),
             springs := grid_springs (initial_system 2 2 4 4 ?st), vertices := vs, indices := idx\<rparr>"
  from ctor_well_formed [of 2 2 4 4 ?st] c have wf: "well_formed s0" by (auto simp: s0_def)
  define s1 where "s1 = addSphere s0 (Vec3 (- 2) 0 4) 1"
  have wf1: "well_formed s1" unfolding s1_def using wf by (rule addSphere_well_formed)
  have el: "elapsedTime s1 = 0" by (simp add: s1_def s0_def addSphere_def initial_system_def)
  from update_no_step [of s1 "1 / 100"] wf1 el obtain s' where
    u: "update s1 (1 / 100) = Inr s'" and ps': "particles s' = particles s1"
    and sp': "spheres s' = spheres (updateObjectMovement (s1\<lparr>elapsedTime := elapsedTime s1 + 1 / 100\<rparr>) (1 / 100))"
    by (auto simp: well_formed_def fixedTimeStep_def)
  have p: "particles s' ! 0 = Particle_ctor (Vec3 (- 2) 0 0)"
    by (simp add: ps' s1_def s0_def addSphere_def grid_particles_2_2)
  have sp: "spheres s' ! 0 = \<lparr>center = Vec3 (- 2) 0 (- (1 / 125)), radius = 1\<rparr>"
    by (simp add: sp' updateObjectMovement_def Let_def s1_def s0_def
        addSphere_def initial_system_def initial_statics_def)
  have "vlength (Vec3 0 0 (1 / 125)) < 1 / 2"
    unfolding vlength_def by (rule real_less_lsqrt) (simp_all add: dot_def power2_eq_square)
  then have "active (particles s' ! 0) \<and>
             vlength (vsub (position (particles s' ! 0)) (center (spheres s' ! 0)))
               < radius (spheres s' ! 0) - 1 / 2"
    by (simp add: p sp Particle_ctor_def vsub_def)
  then show ?thesis
    using u unfolding c s0_def [symmetric] s1_def by simp
qed

lemma vlength_vscale: "vlength (vscale v k) = \<bar>k\<bar> * vlength v"
proof -
  have "dot (vscale v k) (vscale v k) = k\<^sup>2 * dot v v"
    by (simp add: dot_def vscale_def power2_eq_square algebra_simps)
  then show ?thesis by (simp add: vlength_def real_sqrt_mult)
qed

lemma dot_nonneg: "0 \<le> dot v v"
  by (simp add: dot_def)

lemma vlength_unit:
  assumes "0 < vlength v"
  shows "vlength (vdivs v (vlength v)) = 1"
proof -
  have "vdivs v (vlength v) = vscale v (1 / vlength v)"
    by (simp add: vdivs_def vscale_def)
  then show ?thesis using assms by (simp add: vlength_vscale)
qed

lemma vsub_vadd_cancel: "vsub (vadd c v) c = v"
  by (cases v) (simp add: vsub_def vadd_def)

lemma collide_sphere_outside:
  "radius sph \<le> vlength (vsub (position (collide_sphere sph p)) (center sph))"
proof (cases "vlength (vsub (position p) (center sph)) < radius sph")
  case False
  then show ?thesis by (simp add: collide_sphere_def Let_def)
next
  case True
  let ?d = "vlength (vsub (position p) (center sph))"
  let ?n = "if ?d > 1 / 1000000 then vdivs (vsub (position p) (center sph)) ?d else Vec3 0 1 0"
  have "0 \<le> ?d" by (simp add: vlength_def dot_nonneg)
  with True have r: "0 < radius sph" by simp
  have n: "vlength ?n = 1"
  proof (cases "?d > 1 / 1000000")
    case True
    then have "0 < ?d" by simp
    from vlength_unit [OF this] True show ?thesis by simp
  next
    case False
    then show ?thesis by (simp add: vlength_def dot_def)
  qed
  have "position (collide_sphere sph p) = vadd (center sph) (vscale ?n (radius sph))"
    using True by (simp add: collide_sphere_def Let_def)
  then have "vlength (vsub (position (collide_sphere sph p)) (center sph)) = radius sph"
    using r n by (simp only: vsub_vadd_cancel vlength_vscale)
  then show ?thesis by simp
qed

lemma collide_sphere_active: "active (collide_sphere sph p) = active p"
  by (simp add: collide_sphere_def Let_def)

lemma fold_collide_sphere_active: "active (fold collide_sphere ss p) = active p"
  by (induction ss arbitrary: p) (simp_all add: collide_sphere_active)

text \<open>
  Claim C2, as amended. In exact arithmetic, right after the collision stage
  (\<^verbatim>\<open>handleCollisions\<close>) every active particle that lies strictly above the ground plane
  \<open>y = -5\<close> is at least \<open>radius\<close> away from the centre of the sphere that is last in the
  sphere list.
\<close>

theorem collision_stage_clears_last_sphere:
  assumes "spheres s = ss @ [sph]" and "i < length (particles s)"
    and "active (particles (handleCollisions s) ! i)"
    and "- 5 < vy (position (particles (handleCollisions s) ! i))"
  shows "radius sph \<le> vlength (vsub (position (particles (handleCollisions s) ! i)) (center sph))"
proof -
  let ?p = "particles s ! i"
  let ?q = "fold collide_sphere (spheres s) ?p"
  have q: "particles (handleCollisions s) ! i = collide_particle s ?p"
    using assms(2) by (simp add: handleCollisions_def)
  have act: "active ?p"
  proof (rule ccontr)
    assume "\<not> active ?p"
    then have "collide_particle s ?p = ?p" by (simp add: collide_particle_def)
    with assms(3) q \<open>\<not> active ?p\<close> show False by simp
  qed
  then have cg: "collide_particle s ?p = collide_ground ?q" by (simp add: collide_particle_def)
  have "\<not> vy (position ?q) < - 5"
  proof
    assume "vy (position ?q) < - 5"
    then have "vy (position (collide_ground ?q)) = - 5" by (simp add: collide_ground_def Let_def)
    with assms(4) q cg show False by simp
  qed
  then have "collide_ground ?q = ?q" by (simp add: collide_ground_def)
  moreover have "?q = collide_sphere sph (fold collide_sphere ss ?p)" by (simp add: assms(1))
  ultimately show ?thesis using q cg collide_sphere_outside by simp
qed

theorem collision_stage_clears_last_sphere_witness:
  "\<exists>s0. ClothSystem_ctor 2 2 4 4 (initial_statics (\<lambda>n. 0)) = Inr s0 \<and>
     active (particles (handleCollisions (addSphere s0 (Vec3 (- 2) 0 0) 1)) ! 0) \<and>
     position (particles (handleCollisions (addSphere s0 (Vec3 (- 2) 0 0) 1)) ! 0) = Vec3 (- 2) 1 0 \<and>
     1 \<le> vlength (vsub (position (particles (handleCollisions (addSphere s0 (Vec3 (- 2) 0 0) 1)) ! 0))
                        (Vec3 (- 2) 0 0))"
proof -
  let ?st = "initial_statics (\<lambda>n. 0)"
  from ctor_2_2 [of ?st] obtain vs idx where
    c: "ClothSystem_ctor 2 2 4 4 ?st =
     Inr ((initial_system 2 2 4 4 ?st)
            \<lparr>particles := grid_particles (initial_system 2 2 4 4 ?st),
             springs := grid_springs (initial_system 2 2 4 4 ?st), vertices := vs, indices := idx\<rparr>)"
    by blast
  define s0 where "s0 = (initial_system 2 2 4 4 ?st)
            \<lparr>particles := grid_particles (initial_system 2 2 4 4 ?st),
             springs := grid_springs (initial_system 2 2 4 4 ?st), vertices := vs, indices := idx\<rparr>"
  define s1 where "s1 = addSphere s0 (Vec3 (- 2) 0 0) 1"
  have sph: "spheres s1 = [] @ [\<lparr>center = Vec3 (- 2) 0 0, radius = 1\<rparr>]"
    by (simp add: s1_def s0_def addSphere_def initial_system_def)
  have ps: "particles s1 = grid_particles (initial_system 2 2 4 4 ?st)"
    by (simp add: s1_def s0_def addSphere_def)
  have p: "particles (handleCollisions s1) ! 0 =
      (Particle_ctor (Vec3 (- 2) 0 0))\<lparr>position := Vec3 (- 2) 1 0, oldPosition := Vec3 (- 2) (6 / 5) 0\<rparr>"
    using sph by (simp add: handleCollisions_def ps grid_particles_2_2 collide_particle_def
        collide_sphere_def collide_ground_def Particle_ctor_def Let_def vsub_def vlength_def
        dot_def vadd_def vscale_def)
  have a: "active (particles (handleCollisions s1) ! 0)"
    and b: "position (particles (handleCollisions s1) ! 0) = Vec3 (- 2) 1 0"
    by (simp_all add: p Particle_ctor_def)
  from collision_stage_clears_last_sphere [OF sph, of 0] a b
  have "1 \<le> vlength (vsub (position (particles (handleCollisions s1) ! 0)) (Vec3 (- 2) 0 0))"
    by (simp add: ps grid_particles_2_2)
  with a b show ?thesis unfolding c s0_def [symmetric] s1_def by simp
qed

section \<open>The derived mesh\<close>

lemma foldE_prefix_inv:
  assumes "foldE f xs a = Inr b" and "P [] a"
    and "\<And>ys x zs c c'. xs = ys @ x # zs \<Longrightarrow> P ys c \<Longrightarrow> f x c = Inr c' \<Longrightarrow> P (ys @ [x]) c'"
  shows "P xs b"
proof -
  have "P xs b" if "foldE f zs c = Inr b" "P ys c" "xs = ys @ zs" for ys zs c
    using that
  proof (induction zs arbitrary: ys c)
    case Nil
    then show ?case by simp
  next
    case (Cons x zs)
    from Cons.prems(1) obtain c' where c': "f x c = Inr c'" and r: "foldE f zs c' = Inr b"
      by (auto simp: bindE_eq_Inr)
    have "P (ys @ [x]) c'" by (rule assms(3) [OF Cons.prems(3) Cons.prems(2) c'])
    from Cons.IH [OF r this] Cons.prems(3) show ?case by simp
  qed
  from this [OF assms(1,2)] show ?thesis by simp
qed

lemma cell_index_inj:
  fixes x y x' y' W :: int
  assumes "0 \<le> x" "x < W" "0 \<le> x'" "x' < W" "y * W + x = y' * W + x'"
  shows "x = x' \<and> y = y'"
proof -
  have "(y * W + x) mod W = x" "(y' * W + x') mod W = x'" using assms(1-4) by simp_all
  moreover from assms(5) have "(y * W + x) mod W = (y' * W + x') mod W" by (rule arg_cong)
  ultimately have x: "x = x'" by (simp only:)
  with assms(5) have "y * W = y' * W" by simp
  moreover have "W \<noteq> 0" using assms by auto
  ultimately show ?thesis using x by simp
qed

lemma distinct_grid_cells: "distinct (grid_cells w h)"
proof -
  have "distinct (concat (map (\<lambda>y. map (\<lambda>x. (x, y)) xs) ys))"
    if "distinct xs" "distinct ys" for xs ys :: "int list"
    using that by (induction ys) (auto simp: distinct_map inj_on_def)
  then show ?thesis by (simp add: grid_cells_def)
qed

lemma vertex_step_eq:
  assumes "grid_ok s" "(x, y) \<in> set (grid_cells (gridWidth s) (gridHeight s))"
    and "length g = length (particles s)"
  shows "\<exists>r. vertex_of s (x, y) r \<and>
           vertex_step s (x, y) (g, k, vs) =
             Inr (if cell_active s (x, y)
                  then (g[nat (cell_index s (x, y)) := k], k + 1, vs @ r) else (g, k, vs))"
proof -
  from assms(2) have xy: "0 \<le> x" "x < gridWidth s" "0 \<le> y" "y < gridHeight s"
    by (auto simp: set_grid_cells)
  from calculateNormal_ok [OF assms(1) xy] obtain n where n: "calculateNormal s x y = Inr n" ..
  let ?p = "position (particles s ! nat (y * gridWidth s + x))"
  let ?r = "[vx ?p, vy ?p, vz ?p, vx n, vy n, vz n,
             real_of_int x / real_of_int (gridWidth s - 1),
             real_of_int y / real_of_int (gridHeight s - 1)]"
  have "vertex_of s (x, y) ?r" by (simp add: vertex_of_def cell_index_def Let_def)
  moreover have "vertex_step s (x, y) (g, k, vs) =
             Inr (if cell_active s (x, y)
                  then (g[nat (cell_index s (x, y)) := k], k + 1, vs @ ?r) else (g, k, vs))"
    unfolding vertex_step_def cell_active_def cell_index_def
    using grid_ok_index [OF assms(1) xy] n assms(3)
    by (simp add: Let_def elemAt_Inr upd_Inr)
  ultimately show ?thesis by blast
qed

lemma cell_index_range:
  assumes "grid_ok s" "c \<in> set (grid_cells (gridWidth s) (gridHeight s))"
  shows "0 \<le> cell_index s c" "cell_index s c < int (length (particles s))"
proof -
  obtain x y where c: "c = (x, y)" by (cases c)
  with assms(2) have xy: "0 \<le> x" "x < gridWidth s" "0 \<le> y" "y < gridHeight s"
    by (auto simp: set_grid_cells)
  from grid_ok_index [OF assms(1) xy]
  show "0 \<le> cell_index s c" "cell_index s c < int (length (particles s))"
    by (simp_all add: c cell_index_def)
qed

lemma cell_index_eq:
  assumes "c \<in> set (grid_cells (gridWidth s) (gridHeight s))"
    "d \<in> set (grid_cells (gridWidth s) (gridHeight s))" "cell_index s c = cell_index s d"
  shows "c = d"
proof -
  obtain x y where c: "c = (x, y)" by (cases c)
  obtain x' y' where d: "d = (x', y')" by (cases d)
  from assms(1,2) have "0 \<le> x" "x < gridWidth s" "0 \<le> x'" "x' < gridWidth s"
    by (auto simp: c d set_grid_cells)
  from cell_index_inj [OF this, of y y'] assms(3) show ?thesis by (simp add: c d cell_index_def)
qed

lemma slot_in_append: "c \<in> set ys \<Longrightarrow> slot_in s (ys @ zs) c = slot_in s ys c"
  by (simp add: slot_in_def)

lemma slot_in_last: "x \<notin> set ys \<Longrightarrow> slot_in s (ys @ [x]) x = int (length (filter (cell_active s) ys))"
proof -
  assume "x \<notin> set ys"
  then have "takeWhile (\<lambda>d. d \<noteq> x) (ys @ [x]) = ys @ takeWhile (\<lambda>d. d \<noteq> x) [x]"
    by (intro takeWhile_append2) auto
  then show ?thesis by (simp add: slot_in_def)
qed

lemma vertex_inv_step:
  assumes ok: "grid_ok s"
    and cells: "grid_cells (gridWidth s) (gridHeight s) = ys @ x # zs"
    and inv: "vertex_inv s ys st" and step: "vertex_step s x st = Inr st'"
  shows "vertex_inv s (ys @ [x]) st'"
proof -
  let ?cells = "grid_cells (gridWidth s) (gridHeight s)"
  obtain g k vs where st: "st = (g, k, vs)" by (cases st)
  from inv have len: "length g = length (particles s)"
    and k: "k = int (length (filter (cell_active s) ys))"
    and tab: "\<forall>c\<in>set ?cells.
        g ! nat (cell_index s c) = (if c \<in> set ys \<and> cell_active s c then slot_in s ys c else - 1)"
    by (auto simp: vertex_inv_def st)
  from inv obtain recs where recs: "vs = concat recs"
    "list_all2 (vertex_of s) (filter (cell_active s) ys) recs"
    by (auto simp: vertex_inv_def st)
  have xin: "x \<in> set ?cells" by (simp add: cells)
  have xn: "x \<notin> set ys" using distinct_grid_cells [of "gridWidth s" "gridHeight s"] by (simp add: cells)
  obtain a b where x: "x = (a, b)" by (cases x)
  from vertex_step_eq [OF ok xin [unfolded x] len, of k vs] obtain r where
    r: "vertex_of s x r"
    and e: "vertex_step s x (g, k, vs) =
             Inr (if cell_active s x
                  then (g[nat (cell_index s x) := k], k + 1, vs @ r) else (g, k, vs))"
    by (auto simp: x)
  show ?thesis
  proof (cases "cell_active s x")
    case False
    with e step have st': "st' = (g, k, vs)" by (simp add: st)
    have "g ! nat (cell_index s c) = (if c \<in> set (ys @ [x]) \<and> cell_active s c then slot_in s (ys @ [x]) c else - 1)"
      if "c \<in> set ?cells" for c
      using tab that False by (auto simp: slot_in_append)
    then show ?thesis
      using False len k recs by (auto simp: vertex_inv_def st')
  next
    case True
    with e step have st': "st' = (g[nat (cell_index s x) := k], k + 1, vs @ r)" by (simp add: st)
    have ix: "nat (cell_index s x) < length g"
      using cell_index_range [OF ok xin] len by simp
    have "(g[nat (cell_index s x) := k]) ! nat (cell_index s c) =
          (if c \<in> set (ys @ [x]) \<and> cell_active s c then slot_in s (ys @ [x]) c else - 1)"
      if c: "c \<in> set ?cells" for c
    proof (cases "c = x")
      case True
      with \<open>cell_active s x\<close> ix xn k show ?thesis by (simp add: slot_in_last)
    next
      case False
      with cell_index_eq [OF c xin] have "cell_index s c \<noteq> cell_index s x" by blast
      with cell_index_range [OF ok c] cell_index_range [OF ok xin]
      have "nat (cell_index s c) \<noteq> nat (cell_index s x)" by simp
      then have "(g[nat (cell_index s x) := k]) ! nat (cell_index s c) = g ! nat (cell_index s c)"
        by simp
      with tab c False show ?thesis by (auto simp: slot_in_append)
    qed
    moreover have "vs @ r = concat (recs @ [r])" by (simp add: recs)
    moreover have "list_all2 (vertex_of s) (filter (cell_active s) (ys @ [x])) (recs @ [r])"
      using recs(2) r True by (simp add: list_all2_appendI)
    ultimately show ?thesis
      using True len k unfolding vertex_inv_def st' by (simp del: concat_append) blast
  qed
qed

lemma vertex_loop_inv:
  assumes ok: "grid_ok s"
    and f: "foldE (vertex_step s) (grid_cells (gridWidth s) (gridHeight s))
              (replicate (nat (gridWidth s * gridHeight s)) (- 1), 0, []) = Inr st"
  shows "vertex_inv s (grid_cells (gridWidth s) (gridHeight s)) st"
proof (rule foldE_prefix_inv [OF f])
  have n: "nat (gridWidth s * gridHeight s) = length (particles s)"
    using ok by (auto simp: grid_ok_def dest: sym)
  have "(replicate (length (particles s)) (- 1 :: int)) ! nat (cell_index s c) = - 1"
    if "c \<in> set (grid_cells (gridWidth s) (gridHeight s))" for c
    using cell_index_range [OF ok that] by simp
  then show "vertex_inv s [] (replicate (nat (gridWidth s * gridHeight s)) (- 1), 0, [])"
    by (simp add: vertex_inv_def n)
next
  fix ys x zs c c'
  assume "grid_cells (gridWidth s) (gridHeight s) = ys @ x # zs" "vertex_inv s ys c"
    "vertex_step s x c = Inr c'"
  then show "vertex_inv s (ys @ [x]) c'" by (rule vertex_inv_step [OF ok])
qed

lemma slot_active:
  assumes "c \<in> set (grid_cells (gridWidth s) (gridHeight s))" "cell_active s c"
  shows "0 \<le> slot s c" "nat (slot s c) < length (active_cells s)"
    "active_cells s ! nat (slot s c) = c"
proof -
  from split_list_first [OF assms(1)] obtain ys zs where
    e: "grid_cells (gridWidth s) (gridHeight s) = ys @ c # zs" and n: "c \<notin> set ys" by blast
  from n have "takeWhile (\<lambda>d. d \<noteq> c) (ys @ c # zs) = ys @ takeWhile (\<lambda>d. d \<noteq> c) (c # zs)"
    by (intro takeWhile_append2) auto
  then have sl: "slot s c = int (length (filter (cell_active s) ys))"
    by (simp add: slot_def slot_in_def e)
  have ac: "active_cells s = filter (cell_active s) ys @ c # filter (cell_active s) zs"
    using assms(2) by (simp add: active_cells_def e)
  show "0 \<le> slot s c" by (simp add: sl)
  show "nat (slot s c) < length (active_cells s)" by (simp add: sl ac)
  show "active_cells s ! nat (slot s c) = c" by (simp add: sl ac nth_append)
qed

lemma quad_corners:
  assumes "(x, y) \<in> set (grid_cells (gridWidth s - 1) (gridHeight s - 1))"
  shows "(x, y) \<in> set (grid_cells (gridWidth s) (gridHeight s))"
    "(x + 1, y) \<in> set (grid_cells (gridWidth s) (gridHeight s))"
    "(x, y + 1) \<in> set (grid_cells (gridWidth s) (gridHeight s))"
    "(x + 1, y + 1) \<in> set (grid_cells (gridWidth s) (gridHeight s))"
  using assms by (auto simp: set_grid_cells)

lemma corner_lookup:
  assumes ok: "grid_ok s" and inv: "vertex_inv s (grid_cells (gridWidth s) (gridHeight s)) (g, k, vs)"
    and c: "c \<in> set (grid_cells (gridWidth s) (gridHeight s))"
  shows "activeAt (particles s) (cell_index s c) = Inr (cell_active s c)"
    "mappedAt g (cell_index s c) = Inr (cell_active s c)"
    "cell_active s c \<Longrightarrow> elemAt g (cell_index s c) = Inr (slot s c)"
proof -
  from inv have len: "length g = length (particles s)"
    and tab: "g ! nat (cell_index s c) = (if cell_active s c then slot s c else - 1)"
    using c by (auto simp: vertex_inv_def slot_def)
  note r = cell_index_range [OF ok c]
  show "activeAt (particles s) (cell_index s c) = Inr (cell_active s c)"
    using r by (simp add: activeAt_def elemAt_Inr cell_active_def)
  have "0 \<le> slot s c" by (simp add: slot_def slot_in_def)
  then show "mappedAt g (cell_index s c) = Inr (cell_active s c)"
    using r len tab by (simp add: mappedAt_def elemAt_Inr)
  show "elemAt g (cell_index s c) = Inr (slot s c)" if "cell_active s c"
    using r len tab that by (simp add: elemAt_Inr)
qed

lemma quad_step_eq:
  assumes ok: "grid_ok s" and inv: "vertex_inv s (grid_cells (gridWidth s) (gridHeight s)) (g, k, vs)"
    and q: "(x, y) \<in> set (grid_cells (gridWidth s - 1) (gridHeight s - 1))"
  shows "quad_step s g (x, y) idx = Inr (idx @ quad_triangles s (x, y))"
proof -
  note cs = quad_corners [OF q]
  note a = corner_lookup [OF ok inv cs(1), unfolded cell_index_def prod.case]
  note b = corner_lookup [OF ok inv cs(2), unfolded cell_index_def prod.case]
  note c = corner_lookup [OF ok inv cs(3), unfolded cell_index_def prod.case]
  note d = corner_lookup [OF ok inv cs(4), unfolded cell_index_def prod.case]
  show ?thesis
  proof (cases "quad_active s (x, y)")
    case True
    then have t: "cell_active s (x, y)" "cell_active s (x + 1, y)"
      "cell_active s (x, y + 1)" "cell_active s (x + 1, y + 1)"
      by (simp_all add: quad_active_def)
    show ?thesis
      unfolding quad_step_def prod.case Let_def
      by (simp add: a(1,2) b(1,2) c(1,2) d(1,2) a(3) [OF t(1)] b(3) [OF t(2)] c(3) [OF t(3)]
          d(3) [OF t(4)] t andE_def quad_triangles_def True)
  next
    case False
    then have "\<not> (cell_active s (x, y) \<and> cell_active s (x + 1, y) \<and>
      cell_active s (x, y + 1) \<and> cell_active s (x + 1, y + 1))"
      by (simp add: quad_active_def)
    then show ?thesis
      unfolding quad_step_def prod.case Let_def
      by (auto simp: a(1,2) b(1,2) c(1,2) d(1,2) andE_def quad_triangles_def False)
  qed
qed

lemma quad_loop_eq:
  assumes ok: "grid_ok s" and inv: "vertex_inv s (grid_cells (gridWidth s) (gridHeight s)) (g, k, vs)"
    and q: "set qs \<subseteq> set (grid_cells (gridWidth s - 1) (gridHeight s - 1))"
  shows "foldE (quad_step s g) qs idx = Inr (idx @ concat (map (quad_triangles s) qs))"
  using q
proof (induction qs arbitrary: idx)
  case Nil
  then show ?case by simp
next
  case (Cons c qs)
  obtain x y where c: "c = (x, y)" by (cases c)
  with Cons.prems have "(x, y) \<in> set (grid_cells (gridWidth s - 1) (gridHeight s - 1))" by simp
  from quad_step_eq [OF ok inv this] Cons show ?case by (simp add: c)
qed

lemma quad_triangles_range:
  assumes "q \<in> set (grid_cells (gridWidth s - 1) (gridHeight s - 1))" "i \<in> set (quad_triangles s q)"
  shows "0 \<le> i \<and> nat i < length (active_cells s)"
proof -
  obtain x y where q: "q = (x, y)" by (cases q)
  note cs = quad_corners [OF assms(1) [unfolded q]]
  from assms(2) have t: "cell_active s (x, y)" "cell_active s (x + 1, y)"
      "cell_active s (x, y + 1)" "cell_active s (x + 1, y + 1)"
    and i: "i \<in> {slot s (x, y), slot s (x, y + 1), slot s (x + 1, y), slot s (x + 1, y + 1)}"
    by (auto simp: q quad_triangles_def quad_active_def split: if_splits)
  from i slot_active(1,2) [OF cs(1) t(1)] slot_active(1,2) [OF cs(2) t(2)]
    slot_active(1,2) [OF cs(3) t(3)] slot_active(1,2) [OF cs(4) t(4)]
  show ?thesis by auto
qed

lemma updateVertexData_mesh_eq:
  assumes ok: "grid_ok s"
  shows "\<exists>s'. updateVertexData s = Inr s' \<and>
     (\<exists>recs. vertices s' = concat recs \<and> list_all2 (vertex_of s) (active_cells s) recs) \<and>
     indices s' = concat (map (quad_triangles s) (grid_cells (gridWidth s - 1) (gridHeight s - 1))) \<and>
     (\<forall>i\<in>set (indices s'). 0 \<le> i \<and> nat i < length (active_cells s)) \<and>
     (\<forall>c\<in>set (active_cells s). active_cells s ! nat (slot s c) = c)"
proof -
  let ?cells = "grid_cells (gridWidth s) (gridHeight s)"
  let ?quads = "grid_cells (gridWidth s - 1) (gridHeight s - 1)"
  from updateVertexData_ok [OF ok] obtain s' where u: "updateVertexData s = Inr s'" by blast
  have nn: "\<not> gridWidth s * gridHeight s < 0" using ok by (simp add: grid_ok_def)
  from u nn obtain g k vs idx where
    f: "foldE (vertex_step s) ?cells (replicate (nat (gridWidth s * gridHeight s)) (- 1), 0, []) = Inr (g, k, vs)"
    and q: "foldE (quad_step s g) ?quads [] = Inr idx"
    and s': "s' = s\<lparr>vertices := vs, indices := idx\<rparr>"
    by (auto simp: updateVertexData_def bindE_eq_Inr)
  from vertex_loop_inv [OF ok f] have inv: "vertex_inv s ?cells (g, k, vs)" .
  then have 1: "\<exists>recs. vs = concat recs \<and> list_all2 (vertex_of s) (active_cells s) recs"
    by (simp add: vertex_inv_def active_cells_def)
  from quad_loop_eq [OF ok inv subset_refl, of "[]"] q
  have 2: "idx = concat (map (quad_triangles s) ?quads)" by simp
  have 3: "\<forall>i\<in>set idx. 0 \<le> i \<and> nat i < length (active_cells s)"
    unfolding 2 using quad_triangles_range by auto
  have 4: "\<forall>c\<in>set (active_cells s). active_cells s ! nat (slot s c) = c"
    using slot_active(3) by (auto simp: active_cells_def)
  from u 1 2 3 4 show ?thesis by (simp add: s')
qed

lemma cell_index_frame [simp]: "cell_index (s\<lparr>vertices := v, indices := i\<rparr>) = cell_index s"
  by (simp add: cell_index_def)

lemma cell_active_frame [simp]: "cell_active (s\<lparr>vertices := v, indices := i\<rparr>) = cell_active s"
  by (simp add: cell_active_def fun_eq_iff)

lemma active_cells_frame [simp]: "active_cells (s\<lparr>vertices := v, indices := i\<rparr>) = active_cells s"
  by (simp add: active_cells_def)

lemma slot_frame [simp]: "slot (s\<lparr>vertices := v, indices := i\<rparr>) = slot s"
  by (simp add: slot_def slot_in_def fun_eq_iff)

lemma vertex_of_frame [simp]: "vertex_of (s\<lparr>vertices := v, indices := i\<rparr>) = vertex_of s"
  by (simp add: vertex_of_def fun_eq_iff)

lemma quad_triangles_frame [simp]: "quad_triangles (s\<lparr>vertices := v, indices := i\<rparr>) = quad_triangles s"
  by (simp add: quad_triangles_def quad_active_def fun_eq_iff)

lemma updateVertexData_consistent:
  assumes "grid_ok s"
  shows "\<exists>s'. updateVertexData s = Inr s' \<and> mesh_consistent s'"
proof -
  from updateVertexData_mesh_eq [OF assms] obtain s' where u: "updateVertexData s = Inr s'"
    and m: "(\<exists>recs. vertices s' = concat recs \<and> list_all2 (vertex_of s) (active_cells s) recs) \<and>
     indices s' = concat (map (quad_triangles s) (grid_cells (gridWidth s - 1) (gridHeight s - 1))) \<and>
     (\<forall>i\<in>set (indices s'). 0 \<le> i \<and> nat i < length (active_cells s)) \<and>
     (\<forall>c\<in>set (active_cells s). active_cells s ! nat (slot s c) = c)" by blast
  from updateVertexData_fields [OF u] obtain vs idx where s': "s' = s\<lparr>vertices := vs, indices := idx\<rparr>"
    by blast
  have "mesh_consistent s'"
    unfolding mesh_consistent_def using m by (simp add: s')
  with u show ?thesis by blast
qed

lemma update_consistent:
  assumes "well_formed s" "update s dt = Inr s'"
  shows "mesh_consistent s'"
proof -
  let ?s0 = "s\<lparr>elapsedTime := elapsedTime s + dt\<rparr>"
  from assms(2) obtain t where t: "physics_loop ?s0 = Inr t"
    and u: "updateVertexData (updateWindVariation (updateObjectMovement t dt) dt) = Inr s'"
    by (auto simp: update_def bindE_eq_Inr)
  let ?u = "updateWindVariation (updateObjectMovement t dt) dt"
  have "evolves any_motion ?s0 t" by (rule physics_loop_evolves [OF t any_motion_rel])
  then have "evolves any_motion s ?u"
    using updateObjectMovement_frame [of t dt]
      updateWindVariation_frame [of "updateObjectMovement t dt" dt]
    by (simp add: evolves_def same_frame_def)
  with assms(1) have "grid_ok ?u" by (auto simp: well_formed_def dest: evolves_grid_ok)
  from updateVertexData_consistent [OF this] u show ?thesis by auto
qed

lemma createClothGrid_consistent:
  assumes "0 \<le> gridWidth s" "0 \<le> gridHeight s" "createClothGrid s = Inr s'"
  shows "mesh_consistent s'"
proof -
  from assms(3) obtain sps where
    u: "updateVertexData (s\<lparr>particles := grid_particles s, springs := sps\<rparr>) = Inr s'"
    by (auto simp: createClothGrid_def Let_def bindE_eq_Inr grid_particles_def)
  have "grid_ok (s\<lparr>particles := grid_particles s, springs := sps\<rparr>)"
    using assms(1,2) length_grid_particles [OF assms(1,2)] by (simp add: grid_ok_def)
  from updateVertexData_consistent [OF this] u show ?thesis by auto
qed

text \<open>
  Claim C7. Every rebuild of the mesh (\<^verbatim>\<open>updateVertexData\<close> itself, and with it the end
  of every \<^verbatim>\<open>update\<close> and of \<^verbatim>\<open>createClothGrid\<close>) returns with a consistent mesh: the
  vertex buffer holds one record per active particle, every index of the index buffer is
  the place of such a record, and the index buffer is the concatenation over the quads of
  the grid of six indices for a quad whose four corners are all active and of nothing
  for any other quad.
\<close>

theorem mesh_consistent_after_rebuild:
  "(grid_ok s \<longrightarrow> (\<exists>s'. updateVertexData s = Inr s' \<and> mesh_consistent s')) \<and>
   (well_formed s \<and> update s dt = Inr s1 \<longrightarrow> mesh_consistent s1) \<and>
   (0 \<le> gridWidth s \<and> 0 \<le> gridHeight s \<and> createClothGrid s = Inr s2 \<longrightarrow> mesh_consistent s2)"
  using updateVertexData_consistent [of s] update_consistent [of s dt s1]
    createClothGrid_consistent [of s s2]
  by blast

lemma far_from_pointer:
  assumes "1 \<le> dot (vsub (position p) m) (vsub (position p) m)"
  shows "\<not> within_tear_radius m p"
proof -
  from assms have "1 \<le> vlength (vsub (position p) m)" by (simp add: vlength_def)
  then show ?thesis by (simp add: within_tear_radius_def)
qed

theorem mesh_consistent_after_rebuild_witness:
  "\<exists>s0 s'. ClothSystem_ctor 2 2 4 4 (initial_statics (\<lambda>n. 0)) = Inr s0 \<and>
     updateVertexData (handleMouseInteraction s0 (Vec3 2 4 0) True) = Inr s' \<and>
     \<not> active (particles s' ! 3) \<and> indices s' = [] \<and> length (vertices s') = 24"
proof -
  let ?st = "initial_statics (\<lambda>n. 0)"
  from ctor_2_2 [of ?st] obtain vs idx where
    c: "ClothSystem_ctor 2 2 4 4 ?st =
     Inr ((initial_system 2 2 4 4 ?st)
            \<lparr>particles := grid_particles (initial_system 2 2 4 4 ?st),
             springs := grid_springs (initial_system 2 2 4 4 ?st), vertices := vs, indices := idx\<rparr>)"
    by blast
  define s0 where "s0 = (initial_system 2 2 4 4 ?st)
            \<lparr>particles := grid_particles (initial_system 2 2 4 4 ?st),
             springs := grid_springs (initial_system 2 2 4 4 ?st), vertices := vs, indices := idx\<rparr>"
  define s1 where "s1 = handleMouseInteraction s0 (Vec3 2 4 0) True"
  have w: "\<not> within_tear_radius (Vec3 2 4 0) (Particle_ctor (Vec3 (- 2) 0 0))"
    "\<not> within_tear_radius (Vec3 2 4 0) (Particle_ctor (Vec3 2 0 0))"
    "\<not> within_tear_radius (Vec3 2 4 0) ((Particle_ctor (Vec3 (- 2) 4 0))\<lparr>pinned := True\<rparr>)"
    by (rule far_from_pointer, simp add: Particle_ctor_def vsub_def dot_def)+
  have w': "within_tear_radius (Vec3 2 4 0) ((Particle_ctor (Vec3 2 4 0))\<lparr>pinned := True\<rparr>)"
    by (simp add: within_tear_radius_def Particle_ctor_def vsub_def dot_def vlength_def)
  have ps: "particles s1 =
     [Particle_ctor (Vec3 (- 2) 0 0), Particle_ctor (Vec3 2 0 0),
      (Particle_ctor (Vec3 (- 2) 4 0))\<lparr>pinned := True\<rparr>,
      (Particle_ctor (Vec3 2 4 0))\<lparr>pinned := True, active := False\<rparr>]"
    by (simp add: s1_def handleMouseInteraction_eq s0_def grid_particles_2_2 w w')
  have g: "gridWidth s1 = 2" "gridHeight s1 = 2"
    by (simp_all add: s1_def handleMouseInteraction_eq s0_def initial_system_def)
  have ok: "grid_ok s1" by (simp add: grid_ok_def g ps)
  from mesh_consistent_after_rebuild [of s1] ok obtain s' where
    u: "updateVertexData s1 = Inr s'" and m: "mesh_consistent s'" by blast
  from updateVertexData_fields [OF u] obtain vs' idx' where s': "s' = s1\<lparr>vertices := vs', indices := idx'\<rparr>"
    by blast
  have ac: "active_cells s' = [(0, 0), (1, 0), (0, 1)]"
    by (simp add: s' active_cells_def g grid_cells_2_2 cell_active_def cell_index_def ps Particle_ctor_def)
  have "\<not> quad_active s' (0, 0)"
    by (simp add: s' quad_active_def cell_active_def cell_index_def g ps)
  with m have i: "indices s' = []"
    by (simp add: mesh_consistent_def s' g grid_cells_def quad_triangles_def)
  from m obtain recs where r: "vertices s' = concat recs" "list_all2 (vertex_of s') (active_cells s') recs"
    by (auto simp: mesh_consistent_def)
  from r(2) obtain a b d where "recs = [a, b, d]" "length a = 8" "length b = 8" "length d = 8"
    unfolding ac by (auto simp: list_all2_Cons1 vertex_of_def)
  with r(1) have v: "length (vertices s') = 24" by simp
  have "\<not> active (particles s' ! 3)" by (simp add: s' ps)
  with u i v show ?thesis unfolding c s0_def [symmetric] s1_def by auto
qed

section \<open>Rebuilding the grid\<close>

lemma createClothGrid_exact:
  assumes "createClothGrid s = Inr s'"
  shows "\<exists>vs idx. s' = s\<lparr>particles := grid_particles s, springs := grid_springs s,
                          vertices := vs, indices := idx\<rparr>"
proof (cases "0 \<le> gridWidth s \<and> 0 \<le> gridHeight s")
  case True
  with createClothGrid_eq [of s] assms show ?thesis by auto
next
  case False
  then have e: "grid_cells (gridWidth s) (gridHeight s) = []"
    by (auto intro!: grid_cells_empty)
  from assms have "updateVertexData (s\<lparr>particles := [], springs := []\<rparr>) = Inr s'"
    by (simp add: createClothGrid_def e)
  from updateVertexData_fields [OF this] show ?thesis
    by (simp add: grid_particles_def grid_springs_def e)
qed



lemma grid_springs_sactive: "sp \<in> set (grid_springs s) \<Longrightarrow> sactive sp"
  by (auto simp: grid_springs_def cell_springs_def spring_if_def spring_between_def
      Spring_ctor_def Let_def split: if_splits)







text \<open>
  Claim C9. \<^verbatim>\<open>reset()\<close> twice in a row gives the state that one \<^verbatim>\<open>reset()\<close> gives. It
  returns on every state whose grid has a non-negative number of cells; the state it
  returns is the state it was called on with the particle and the spring container
  replaced by those of a freshly built grid (\<open>width * height\<close> particles, and for
  dimensions from 2 on the closed-form spring counts) and with the mesh derived anew, every
  other field as it was; every particle and spring in it is active; and a second call
  returns this very state.
\<close>

theorem reset_idempotent:
  "(0 \<le> gridWidth s * gridHeight s \<longrightarrow> (\<exists>s1. reset s = Inr s1)) \<and>
   (\<forall>s1. reset s = Inr s1 \<longrightarrow>
      reset s1 = Inr s1 \<and>
      s1 = s\<lparr>particles := grid_particles s, springs := grid_springs s,
              vertices := vertices s1, indices := indices s1\<rparr> \<and>
      (\<forall>p\<in>set (particles s1). active p) \<and> (\<forall>sp\<in>set (springs s1). sactive sp) \<and>
      (0 \<le> gridWidth s \<and> 0 \<le> gridHeight s \<longrightarrow>
         int (length (particles s1)) = gridWidth s * gridHeight s) \<and>
      (2 \<le> gridWidth s \<and> 2 \<le> gridHeight s \<longrightarrow> grid_counts (gridWidth s) (gridHeight s) s1))"
proof (intro conjI impI allI)
  assume "0 \<le> gridWidth s * gridHeight s"
  then show "\<exists>s1. reset s = Inr s1" unfolding reset_def by (rule createClothGrid_total)
next
  fix s1 assume r: "reset s = Inr s1"
  then obtain vs idx where
    s1: "s1 = s\<lparr>particles := grid_particles s, springs := grid_springs s, vertices := vs, indices := idx\<rparr>"
    unfolding reset_def using createClothGrid_exact by blast
  show "reset s1 = Inr s1"
    using r unfolding reset_def s1 by (simp only: createClothGrid_rebuilds)
  show "s1 = s\<lparr>particles := grid_particles s, springs := grid_springs s,
              vertices := vertices s1, indices := indices s1\<rparr>"
    by (simp add: s1)
  show "\<forall>p\<in>set (particles s1). active p" by (simp add: s1 grid_particles_active)
  show "\<forall>sp\<in>set (springs s1). sactive sp" by (simp add: s1 grid_springs_sactive)
  show "int (length (particles s1)) = gridWidth s * gridHeight s"
    if "0 \<le> gridWidth s \<and> 0 \<le> gridHeight s"
    using that by (simp add: s1 length_grid_particles)
  show "grid_counts (gridWidth s) (gridHeight s) s1" if "2 \<le> gridWidth s \<and> 2 \<le> gridHeight s"
    using createClothGrid_counts [of s] that r by (auto simp: reset_def)
qed

theorem reset_idempotent_witness:
  "\<exists>s0 t. ClothSystem_ctor 2 2 4 4 (initial_statics (\<lambda>n. 0)) = Inr s0 \<and>
     \<not> active (particles (handleMouseInteraction s0 (Vec3 2 4 0) True) ! 3) \<and>
     reset (handleMouseInteraction s0 (Vec3 2 4 0) True) = Inr t \<and>
     bindE (reset (handleMouseInteraction s0 (Vec3 2 4 0) True)) reset = Inr t \<and>
     length (particles t) = 4 \<and> length (springs t) = 6 \<and>
     active (particles t ! 3) \<and> sactive (springs t ! 5)"
proof -
  let ?st = "initial_statics (\<lambda>n. 0)"
  from ctor_2_2 [of ?st] obtain vs idx where
    c: "ClothSystem_ctor 2 2 4 4 ?st =
     Inr ((initial_system 2 2 4 4 ?st)
            \<lparr>particles := grid_particles (initial_system 2 2 4 4 ?st),
             springs := grid_springs (initial_system 2 2 4 4 ?st), vertices := vs, indices := idx\<rparr>)"
    by blast
  define s0 where "s0 = (initial_system 2 2 4 4 ?st)
            \<lparr>particles := grid_particles (initial_system 2 2 4 4 ?st),
             springs := grid_springs (initial_system 2 2 4 4 ?st), vertices := vs, indices := idx\<rparr>"
  define s1 where "s1 = handleMouseInteraction s0 (Vec3 2 4 0) True"
  have w: "\<not> within_tear_radius (Vec3 2 4 0) (Particle_ctor (Vec3 (- 2) 0 0))"
    "\<not> within_tear_radius (Vec3 2 4 0) (Particle_ctor (Vec3 2 0 0))"
    "\<not> within_tear_radius (Vec3 2 4 0) ((Particle_ctor (Vec3 (- 2) 4 0))\<lparr>pinned := True\<rparr>)"
    by (rule far_from_pointer, simp add: Particle_ctor_def vsub_def dot_def)+
  have w': "within_tear_radius (Vec3 2 4 0) ((Particle_ctor (Vec3 2 4 0))\<lparr>pinned := True\<rparr>)"
    by (simp add: within_tear_radius_def Particle_ctor_def vsub_def dot_def vlength_def)
  have torn: "\<not> active (particles s1 ! 3)"
    by (simp add: s1_def handleMouseInteraction_eq s0_def grid_particles_2_2 w w')
  have g: "gridWidth s1 = 2" "gridHeight s1 = 2"
    by (simp_all add: s1_def handleMouseInteraction_eq s0_def initial_system_def)
  from reset_idempotent [of s1] g obtain t where r: "reset s1 = Inr t" by auto
  from reset_idempotent [of s1] r g have rr: "reset t = Inr t"
    and pa: "\<forall>p\<in>set (particles t). active p" and sa: "\<forall>sp\<in>set (springs t). sactive sp"
    and gc: "grid_counts 2 2 t" by auto
  from gc have l4: "length (particles t) = 4" and l6: "length (springs t) = 6"
    by (simp_all add: grid_counts_def)
  from pa l4 have a3: "active (particles t ! 3)" by simp
  from sa l6 have a5: "sactive (springs t ! 5)" by simp
  from r rr have "bindE (reset s1) reset = Inr t" by simp
  with torn r l4 l6 a3 a5 show ?thesis unfolding c s0_def [symmetric] s1_def by auto
qed

end
